theory Spec2Isabelle
  imports Main "HOL-Library.Log_Nat" "HOL-Library.Sublist" "HOL-Library.Word"
begin

section \<open>The capture-website plugin: option resolution and invocation\<close>

text \<open>
  A shallow embedding of \<^verbatim>\<open>src/plugins/capture-website/src/index.ts\<close>: the
  classifier \<^verbatim>\<open>isUrl\<close>, the resolver \<^verbatim>\<open>makeOptions\<close> and the
  invoker \<^verbatim>\<open>render\<close>, together with the parts of the JavaScript language they rely
  on (truthiness, \<^verbatim>\<open>String.prototype.split\<close>, unary plus on a string, regular
  expression search).
\<close>

subsection \<open>JavaScript values\<close>

text \<open>
  A JavaScript string is a sequence of 16-bit code units. The viewport is the one
  string whose characters the code looks at beyond a fixed prefix (it is split and
  converted to numbers), so it is modelled as a list of code units, each a natural
  number; every code unit is one, and the theorems quantify over all such lists. The
  other strings are of type \<^typ>\<open>string\<close>. \<open>ascii\<close> gives the code units of a string of
  ASCII characters.

  A JavaScript number is an IEEE 754 binary64 value. A finite one is represented by the
  rational it denotes (the two zeros are both \<open>Finite 0\<close>). Every double is such a value;
  the theorems below quantify over all of them and more.
\<close>

type_synonym code_unit = nat

definition unit_of :: "char \<Rightarrow> code_unit" where
  "unit_of c = of_char c"

definition ascii :: "string \<Rightarrow> code_unit list" where
  "ascii s = map unit_of s"

datatype number = Finite rat | NaN | PosInfinity | NegInfinity

text \<open>\<^verbatim>\<open>ToBoolean\<close>, written \<^verbatim>\<open>!x\<close> in the source, on the three kinds of optional
  field of \<^verbatim>\<open>Options\<close>. A missing property is \<^verbatim>\<open>undefined\<close>, here \<open>None\<close>.\<close>

fun truthy_string :: "'a list option \<Rightarrow> bool" where
  "truthy_string None = False"
| "truthy_string (Some s) = (s \<noteq> [])"

fun truthy_number :: "number option \<Rightarrow> bool" where
  "truthy_number None = False"
| "truthy_number (Some (Finite q)) = (q \<noteq> 0)"
| "truthy_number (Some NaN) = False"
| "truthy_number (Some PosInfinity) = True"
| "truthy_number (Some NegInfinity) = True"

fun truthy_boolean :: "bool option \<Rightarrow> bool" where
  "truthy_boolean None = False"
| "truthy_boolean (Some b) = b"

subsection \<open>Numbers and strings\<close>

text \<open>The value of a real number as a double: round to nearest, ties to even, with
  gradual underflow and overflow to infinity.\<close>

definition pow2 :: "int \<Rightarrow> rat" where
  "pow2 n = (if 0 \<le> n then 2 ^ nat n else 1 / 2 ^ nat (- n))"

definition floor_log2 :: "rat \<Rightarrow> int" where
  "floor_log2 q =
     (if 1 \<le> q then int (floorlog 2 (nat \<lfloor>q\<rfloor>)) - 1
      else - int (floorlog 2 (nat \<lceil>1 / q\<rceil> - 1)))"

definition round_half_even :: "rat \<Rightarrow> int" where
  "round_half_even q =
     (let f = \<lfloor>q\<rfloor>; r = q - of_int f
      in if r < 1 / 2 then f
         else if 1 / 2 < r then f + 1
         else if even f then f else f + 1)"

definition round_double :: "rat \<Rightarrow> number" where
  "round_double q =
     (if q = 0 then Finite 0
      else let a = \<bar>q\<bar>;
               e = max (floor_log2 a) (- 1022);
               ulp = pow2 (e - 52);
               m = of_int (round_half_even (a / ulp)) * ulp
           in if pow2 1024 \<le> m then (if q < 0 then NegInfinity else PosInfinity)
              else Finite (if q < 0 then - m else m))"

text \<open>\<^verbatim>\<open>Number.prototype.toString\<close> on a natural number, as the template string of
  \<^verbatim>\<open>makeOptions\<close> applies it to the configured width and height (the configuration
  schema makes them naturals): the decimal digits, no sign, no leading zero. This is
  what JavaScript writes for a natural number up to \<open>2^53\<close>. A larger number of
  JavaScript is written with the fewest digits that convert back to the same double,
  zeros after them (\<open>2^60\<close> as \<^verbatim>\<open>1152921504606847000\<close>), and from \<open>10^21\<close> on in exponent
  notation; neither is modelled. The statement on the digits of a configured width or
  height carries the bound \<open>2^53\<close>.\<close>

definition digit_char :: "nat \<Rightarrow> code_unit" where
  "digit_char d = 0x30 + d"

fun number_toString :: "nat \<Rightarrow> code_unit list" where
  "number_toString n =
     (if n < 10 then [digit_char n]
      else number_toString (n div 10) @ [digit_char (n mod 10)])"

declare number_toString.simps [simp del]

text \<open>\<^verbatim>\<open>s.split(c)\<close> for a one-character separator: the segments between the
  occurrences of \<open>c\<close>, at least one.\<close>

fun split_from :: "'a \<Rightarrow> 'a list \<Rightarrow> 'a list \<Rightarrow> 'a list list" where
  "split_from c seg [] = [rev seg]"
| "split_from c seg (x # xs) =
     (if x = c then rev seg # split_from c [] xs else split_from c (x # seg) xs)"

definition split :: "'a \<Rightarrow> 'a list \<Rightarrow> 'a list list" where
  "split c s = split_from c [] s"

text \<open>Reading an array element: \<^verbatim>\<open>a[i]\<close> is \<^verbatim>\<open>undefined\<close> past the end.\<close>

fun element_at :: "'a list \<Rightarrow> nat \<Rightarrow> 'a option" where
  "element_at [] i = None"
| "element_at (x # xs) 0 = Some x"
| "element_at (x # xs) (Suc i) = element_at xs i"

subsection \<open>Unary plus: \<^verbatim>\<open>ToNumber\<close> on a string or \<^verbatim>\<open>undefined\<close>\<close>

text \<open>
  \<^verbatim>\<open>StringToNumber\<close> of ECMAScript: white space is trimmed at both ends; the empty
  string is \<open>0\<close>; what is left must be a \<^verbatim>\<open>StrNumericLiteral\<close>, that is an unsigned
  \<^verbatim>\<open>0x\<close>, \<^verbatim>\<open>0o\<close> or \<^verbatim>\<open>0b\<close> integer, or an optionally signed \<^verbatim>\<open>Infinity\<close> or
  decimal literal with optional fraction and exponent; anything else is \<open>NaN\<close>.

  \<^verbatim>\<open>StrWhiteSpaceChar\<close>: TAB, LF, VT, FF, CR, the space, the no-break space, the
  other space separators of Unicode, the line and paragraph separators and the
  byte order mark.
\<close>

definition isStrWhiteSpaceChar :: "code_unit \<Rightarrow> bool" where
  "isStrWhiteSpaceChar c \<longleftrightarrow>
     c \<in> set [0x09, 0x0A, 0x0B, 0x0C, 0x0D, 0x20, 0xA0, 0x1680,
              0x2000, 0x2001, 0x2002, 0x2003, 0x2004, 0x2005, 0x2006, 0x2007, 0x2008,
              0x2009, 0x200A, 0x2028, 0x2029, 0x202F, 0x205F, 0x3000, 0xFEFF]"

definition trim :: "code_unit list \<Rightarrow> code_unit list" where
  "trim s = rev (dropWhile isStrWhiteSpaceChar (rev (dropWhile isStrWhiteSpaceChar s)))"

text \<open>The value of a digit: \<^verbatim>\<open>0\<close> to \<^verbatim>\<open>9\<close>, \<^verbatim>\<open>a\<close> to \<^verbatim>\<open>f\<close>, \<^verbatim>\<open>A\<close> to \<^verbatim>\<open>F\<close>.\<close>

definition digit_value :: "code_unit \<Rightarrow> nat option" where
  "digit_value c =
     (if unit_of CHR ''0'' \<le> c \<and> c \<le> unit_of CHR ''9'' then Some (c - unit_of CHR ''0'')
      else if unit_of CHR ''a'' \<le> c \<and> c \<le> unit_of CHR ''f''
        then Some (c - unit_of CHR ''a'' + 10)
      else if unit_of CHR ''A'' \<le> c \<and> c \<le> unit_of CHR ''F''
        then Some (c - unit_of CHR ''A'' + 10)
      else None)"

definition is_digit_of :: "nat \<Rightarrow> code_unit \<Rightarrow> bool" where
  "is_digit_of base c = (case digit_value c of None \<Rightarrow> False | Some d \<Rightarrow> d < base)"

definition digits_value :: "nat \<Rightarrow> code_unit list \<Rightarrow> nat" where
  "digits_value base ds =
     foldl (\<lambda>acc c. base * acc + (case digit_value c of None \<Rightarrow> 0 | Some d \<Rightarrow> d)) 0 ds"

text \<open>\<^verbatim>\<open>NonDecimalIntegerLiteral\<close>: a radix prefix and at least one digit of that radix,
  nothing else.\<close>

definition radix_of_prefix :: "code_unit \<Rightarrow> nat option" where
  "radix_of_prefix c =
     (if c = unit_of CHR ''x'' \<or> c = unit_of CHR ''X'' then Some 16
      else if c = unit_of CHR ''o'' \<or> c = unit_of CHR ''O'' then Some 8
      else if c = unit_of CHR ''b'' \<or> c = unit_of CHR ''B'' then Some 2
      else None)"

fun non_decimal_literal :: "code_unit list \<Rightarrow> nat option" where
  "non_decimal_literal (z # p # ds) =
     (if z = unit_of CHR ''0'' then
        (case radix_of_prefix p of
           None \<Rightarrow> None
         | Some base \<Rightarrow>
             if ds \<noteq> [] \<and> list_all (is_digit_of base) ds
             then Some (digits_value base ds) else None)
      else None)"
| "non_decimal_literal _ = None"

text \<open>\<^verbatim>\<open>ExponentPart\<close>, optional: nothing (exponent \<open>0\<close>), or \<^verbatim>\<open>e\<close> or \<^verbatim>\<open>E\<close>, an optional
  sign and at least one decimal digit.\<close>

definition signed_integer :: "code_unit list \<Rightarrow> int option" where
  "signed_integer s =
     (let (neg, ds) = (case s of
                         c # t \<Rightarrow> if c = unit_of CHR ''-'' then (True, t)
                                  else if c = unit_of CHR ''+'' then (False, t) else (False, s)
                       | [] \<Rightarrow> (False, s))
      in if ds \<noteq> [] \<and> list_all (is_digit_of 10) ds
         then Some (if neg then - int (digits_value 10 ds) else int (digits_value 10 ds))
         else None)"

definition exponent_part :: "code_unit list \<Rightarrow> int option" where
  "exponent_part s =
     (case s of
        [] \<Rightarrow> Some 0
      | c # t \<Rightarrow>
          if c = unit_of CHR ''e'' \<or> c = unit_of CHR ''E'' then signed_integer t else None)"

text \<open>\<^verbatim>\<open>StrUnsignedDecimalLiteral\<close>: \<^verbatim>\<open>Infinity\<close>, or digits with an optional fraction
  (one of the two digit runs may be empty, not both) and an optional exponent. A
  decimal literal yields its mathematical value, rounded afterwards.\<close>

datatype literal_value = Not_A_Literal | Infinite_Literal | Rational_Literal rat

definition scale10 :: "nat \<Rightarrow> int \<Rightarrow> rat" where
  "scale10 m e = (if 0 \<le> e then of_nat m * 10 ^ nat e else of_nat m / 10 ^ nat (- e))"

definition unsigned_decimal_literal :: "code_unit list \<Rightarrow> literal_value" where
  "unsigned_decimal_literal s =
     (if s = ascii ''Infinity'' then Infinite_Literal
      else let ip = takeWhile (is_digit_of 10) s;
               r1 = dropWhile (is_digit_of 10) s;
               (fp, r2) = (case r1 of
                             c # t \<Rightarrow> if c = unit_of CHR ''.''
                                      then (takeWhile (is_digit_of 10) t,
                                            dropWhile (is_digit_of 10) t)
                                      else ([], r1)
                           | [] \<Rightarrow> ([], r1))
           in if ip = [] \<and> fp = [] then Not_A_Literal
              else (case exponent_part r2 of
                      None \<Rightarrow> Not_A_Literal
                    | Some e \<Rightarrow>
                        Rational_Literal
                          (scale10 (digits_value 10 (ip @ fp)) (e - int (length fp)))))"

definition string_to_number :: "code_unit list \<Rightarrow> number" where
  "string_to_number str =
     (let s = trim str
      in if s = [] then Finite 0
         else (case non_decimal_literal s of
                 Some n \<Rightarrow> round_double (of_nat n)
               | None \<Rightarrow>
                   let (neg, u) = (case s of
                                     c # t \<Rightarrow> if c = unit_of CHR ''-'' then (True, t)
                                              else if c = unit_of CHR ''+'' then (False, t)
                                              else (False, s)
                                   | [] \<Rightarrow> (False, s))
                   in (case unsigned_decimal_literal u of
                         Not_A_Literal \<Rightarrow> NaN
                       | Infinite_Literal \<Rightarrow> if neg then NegInfinity else PosInfinity
                       | Rational_Literal q \<Rightarrow> round_double (if neg then - q else q))))"

text \<open>\<^verbatim>\<open>+v\<close> where \<open>v\<close> is a string or \<^verbatim>\<open>undefined\<close>; \<^verbatim>\<open>+undefined\<close> is \<open>NaN\<close>.\<close>

fun unary_plus :: "code_unit list option \<Rightarrow> number" where
  "unary_plus None = NaN"
| "unary_plus (Some s) = string_to_number s"

subsection \<open>Regular expression search\<close>

text \<open>
  The fragment of JavaScript regular expressions that \<^verbatim>\<open>isUrl\<close> uses: literal
  characters, sequence, alternation \<^verbatim>\<open>|\<close>, the optional \<^verbatim>\<open>?\<close> and the assertion
  \<^verbatim>\<open>^\<close> (without the \<^verbatim>\<open>m\<close> flag: start of input). \<open>match_at s r i\<close> lists the
  positions where a match of \<open>r\<close> that starts at position \<open>i\<close> of \<open>s\<close> can end, in the
  order a backtracking matcher tries them. \<^verbatim>\<open>r.test(s)\<close> searches every start position.
\<close>

datatype regex = Lit string | Seq regex regex | Alt regex regex | Opt regex | Bol

fun match_at :: "string \<Rightarrow> regex \<Rightarrow> nat \<Rightarrow> nat list" where
  "match_at s (Lit cs) i = (if take (length cs) (drop i s) = cs then [i + length cs] else [])"
| "match_at s (Seq a b) i = concat (map (match_at s b) (match_at s a i))"
| "match_at s (Alt a b) i = match_at s a i @ match_at s b i"
| "match_at s (Opt a) i = match_at s a i @ [i]"
| "match_at s Bol i = (if i = 0 then [i] else [])"

definition test :: "regex \<Rightarrow> string \<Rightarrow> bool" where
  "test r s = list_ex (\<lambda>i. match_at s r i \<noteq> []) [0..<Suc (length s)]"

subsection \<open>Configuration and options\<close>

text \<open>The interfaces \<^verbatim>\<open>BrowserConfig\<close> and \<^verbatim>\<open>Config\<close>. The schema declares the
  default width and height as naturals and the scale factor as a number.\<close>

record DefaultViewport =
  width :: nat
  height :: nat
  deviceScaleFactor :: number

record BrowserConfig =
  defaultViewport :: DefaultViewport
  proxyServer :: "string option"

record Config =
  browser :: BrowserConfig

definition defaultConfig :: Config where
  "defaultConfig =
     \<lparr>browser =
        \<lparr>BrowserConfig.defaultViewport =
           \<lparr>DefaultViewport.width = 1280, DefaultViewport.height = 800,
            deviceScaleFactor = Finite 2\<rparr>,
         proxyServer = None\<rparr>\<rparr>"

record LaunchOptions =
  args :: "string list"
  executablePath :: string
  defaultViewport :: DefaultViewport

text \<open>The interface \<^verbatim>\<open>Options\<close>, every field optional, followed by the four properties
  that \<^verbatim>\<open>makeOptions\<close> and \<^verbatim>\<open>render\<close> add to the object.\<close>

record Options =
  viewport :: "code_unit list option"
  fullPage :: "bool option"
  darkMode :: "bool option"
  type :: "string option"
  quality :: "number option"
  scaleFactor :: "number option"
  timeout :: "number option"
  delay :: "number option"
  waitForElement :: "string option"
  element :: "string option"
  hideElements :: "string option"
  removeElements :: "string option"
  clickElement :: "string option"
  scrollToElement :: "string option"
  disableAnimations :: "bool option"
  noJavascript :: "bool option"
  script :: "string option"
  style :: "string option"
  header :: "string option"
  userAgent :: "string option"
  cookie :: "string option"
  authentication :: "string option"
  clip :: "string option"
  inset :: "string option"
  launchOptions :: "LaunchOptions option"
  width :: "number option"
  height :: "number option"
  inputType :: "string option"

text \<open>The options object with no property set.\<close>

definition no_options :: Options where
  "no_options =
     \<lparr>viewport = None, fullPage = None, darkMode = None, type = None, quality = None,
      scaleFactor = None, timeout = None, delay = None, waitForElement = None,
      element = None, hideElements = None, removeElements = None, clickElement = None,
      scrollToElement = None, disableAnimations = None, noJavascript = None,
      script = None, style = None, header = None, userAgent = None, cookie = None,
      authentication = None, clip = None, inset = None, launchOptions = None,
      Options.width = None, Options.height = None, inputType = None\<rparr>"

subsection \<open>The classifier \<^verbatim>\<open>isUrl\<close>\<close>

text \<open>\<^verbatim>\<open>/^(https?|file):\/\/|^data:/\<close>\<close>

definition isUrl_regex :: regex where
  "isUrl_regex =
     Alt (Seq Bol (Seq (Alt (Seq (Lit ''http'') (Opt (Lit ''s''))) (Lit ''file'')) (Lit ''://'')))
         (Seq Bol (Lit ''data:''))"

definition isUrl :: "string \<Rightarrow> bool" where
  "isUrl s = test isUrl_regex s"

subsection \<open>The resolver \<^verbatim>\<open>makeOptions\<close>\<close>

text \<open>
  A thrown value is an \<^verbatim>\<open>Error\<close> with its message. \<^verbatim>\<open>findChrome()\<close> belongs to the
  package \<^verbatim>\<open>chrome-finder\<close>; its outcome, the path of an executable or the error it
  throws, is the first argument. \<^verbatim>\<open>makeOptions\<close> mutates the caller's object and
  returns nothing: the model returns the object as it is when the function is left,
  and the thrown value if it was left by an exception.
\<close>

datatype exn = Error string

definition makeOptions :: "exn + string \<Rightarrow> Options \<Rightarrow> Config \<Rightarrow> Options \<times> exn option" where
  "makeOptions findChrome options config =
     (let dv = BrowserConfig.defaultViewport (browser config);
          options =
            (if \<not> truthy_string (viewport options)
             then options\<lparr>viewport :=
                    Some (number_toString (DefaultViewport.width dv) @ ascii ''x'' @
                          number_toString (DefaultViewport.height dv))\<rparr>
             else options);
          options =
            (if \<not> truthy_number (scaleFactor options)
             then options\<lparr>scaleFactor := Some (deviceScaleFactor dv)\<rparr>
             else options);
          options =
            (if \<not> truthy_string (type options)
             then options\<lparr>type := Some ''png''\<rparr>
             else options);
          options =
            (if \<not> truthy_number (quality options) \<and> type options \<noteq> Some ''png''
             then options\<lparr>quality := Some (Finite 1)\<rparr>
             else options);
          options =
            (if \<not> truthy_number (timeout options)
             then options\<lparr>timeout := Some (Finite 60)\<rparr>
             else options);
          options =
            (if \<not> truthy_number (delay options)
             then options\<lparr>delay := Some (Finite 0)\<rparr>
             else options);
          options =
            (if \<not> truthy_boolean (disableAnimations options)
             then options\<lparr>disableAnimations := Some False\<rparr>
             else options)
      in case findChrome of
           Inl e \<Rightarrow> (options, Some e)
         | Inr path \<Rightarrow>
             let launch = \<lparr>args = [], executablePath = path,
                           LaunchOptions.defaultViewport = dv\<rparr>;
                 launch =
                   (case proxyServer (browser config) of
                      None \<Rightarrow> launch
                    | Some proxy \<Rightarrow>
                        if proxy \<noteq> []
                        then launch\<lparr>args := args launch @ [''--proxy-server='' @ proxy]\<rparr>
                        else launch);
                 options = options\<lparr>launchOptions := Some launch\<rparr>;
                 options =
                   (case viewport options of
                      None \<Rightarrow> options
                    | Some v \<Rightarrow>
                        if v \<noteq> [] then
                          let segments = split (unit_of CHR ''x'') v;
                              w = unary_plus (element_at segments 0);
                              h = unary_plus (element_at segments 1)
                          in options\<lparr>Options.width := Some w, Options.height := Some h\<rparr>
                        else options)
             in (options, None))"

subsection \<open>The invoker \<^verbatim>\<open>render\<close>\<close>

text \<open>
  \<^verbatim>\<open>captureWebsite.buffer\<close> belongs to the package \<^verbatim>\<open>capture-website\<close>: given the
  subject and the options it resolves to an image or rejects with an error. It is the
  first argument of \<open>render\<close>. The outcome of \<open>render\<close> records what the promise settles
  to, the caller's options object afterwards, and the calls made to the engine.
  The two calls of \<^verbatim>\<open>logger.debug\<close> only write to the log and are left out.
\<close>

type_synonym buffer = "8 word list"

type_synonym engine = "string \<Rightarrow> Options \<Rightarrow> exn + buffer"

record outcome =
  result :: "exn + buffer"
  options_after :: Options
  engine_calls :: "(string \<times> Options) list"

definition render :: "engine \<Rightarrow> exn + string \<Rightarrow> string \<Rightarrow> Options \<Rightarrow> Config option \<Rightarrow> outcome" where
  "render captureWebsite_buffer findChrome urlOrContent options config =
     (let config = (case config of None \<Rightarrow> defaultConfig | Some c \<Rightarrow> c)
      in case makeOptions findChrome options config of
           (options, Some e) \<Rightarrow>
             \<lparr>result = Inl e, options_after = options, engine_calls = []\<rparr>
         | (options, None) \<Rightarrow>
             let options = (if \<not> isUrl urlOrContent
                            then options\<lparr>inputType := Some ''html''\<rparr> else options)
             in case captureWebsite_buffer urlOrContent options of
                  Inr img \<Rightarrow>
                    \<lparr>result = Inr img, options_after = options,
                     engine_calls = [(urlOrContent, options)]\<rparr>
                | Inl err \<Rightarrow>
                    \<lparr>result = Inl (Error ''capture website failed.''), options_after = options,
                     engine_calls = [(urlOrContent, options)]\<rparr>)"

section \<open>Verification\<close>

subsection \<open>Auxiliary definitions\<close>

text \<open>
  The value a defaulting statement \<^verbatim>\<open>if (!o.f) { o.f = d }\<close> leaves in the field \<open>f\<close>,
  for the three kinds of field, and the one the statement for \<^verbatim>\<open>quality\<close> leaves.
\<close>

definition default_string :: "'a list \<Rightarrow> 'a list option \<Rightarrow> 'a list option" where
  "default_string d v = (if truthy_string v then v else Some d)"

definition default_number :: "number \<Rightarrow> number option \<Rightarrow> number option" where
  "default_number d v = (if truthy_number v then v else Some d)"

definition default_boolean :: "bool \<Rightarrow> bool option \<Rightarrow> bool option" where
  "default_boolean d v = (if truthy_boolean v then v else Some d)"

definition default_quality :: "string option \<Rightarrow> number option \<Rightarrow> number option" where
  "default_quality t q =
     (if \<not> truthy_number q \<and> t \<noteq> Some ''png'' then Some (Finite 1) else q)"

definition viewport_of_config :: "Config \<Rightarrow> code_unit list" where
  "viewport_of_config c =
     number_toString (DefaultViewport.width (BrowserConfig.defaultViewport (browser c))) @
     ascii ''x'' @
     number_toString (DefaultViewport.height (BrowserConfig.defaultViewport (browser c)))"

definition resolved_viewport :: "Config \<Rightarrow> Options \<Rightarrow> code_unit list" where
  "resolved_viewport c opts =
     (if truthy_string (viewport opts) then the (viewport opts) else viewport_of_config c)"

text \<open>The options after the seven defaulting statements (lines 87 to 113).\<close>

definition defaults :: "Config \<Rightarrow> Options \<Rightarrow> Options" where
  "defaults c opts =
     opts\<lparr>viewport := default_string (viewport_of_config c) (viewport opts),
          scaleFactor :=
            default_number (deviceScaleFactor (BrowserConfig.defaultViewport (browser c)))
              (scaleFactor opts),
          type := default_string ''png'' (type opts),
          quality := default_quality (default_string ''png'' (type opts)) (quality opts),
          timeout := default_number (Finite 60) (timeout opts),
          delay := default_number (Finite 0) (delay opts),
          disableAnimations := default_boolean False (disableAnimations opts)\<rparr>"

text \<open>The same seven statements one by one, and the rest of the body, as they stand
  in \<open>makeOptions\<close>.\<close>

definition set_viewport :: "Config \<Rightarrow> Options \<Rightarrow> Options" where
  "set_viewport c options =
     (if \<not> truthy_string (viewport options)
      then options\<lparr>viewport :=
             Some (number_toString
                     (DefaultViewport.width (BrowserConfig.defaultViewport (browser c))) @
                   ascii ''x'' @
                   number_toString
                     (DefaultViewport.height (BrowserConfig.defaultViewport (browser c))))\<rparr>
      else options)"

definition set_scaleFactor :: "Config \<Rightarrow> Options \<Rightarrow> Options" where
  "set_scaleFactor c options =
     (if \<not> truthy_number (scaleFactor options)
      then options\<lparr>scaleFactor :=
             Some (deviceScaleFactor (BrowserConfig.defaultViewport (browser c)))\<rparr>
      else options)"

definition set_type :: "Options \<Rightarrow> Options" where
  "set_type options =
     (if \<not> truthy_string (type options) then options\<lparr>type := Some ''png''\<rparr> else options)"

definition set_quality :: "Options \<Rightarrow> Options" where
  "set_quality options =
     (if \<not> truthy_number (quality options) \<and> type options \<noteq> Some ''png''
      then options\<lparr>quality := Some (Finite 1)\<rparr> else options)"

definition set_timeout :: "Options \<Rightarrow> Options" where
  "set_timeout options =
     (if \<not> truthy_number (timeout options)
      then options\<lparr>timeout := Some (Finite 60)\<rparr> else options)"

definition set_delay :: "Options \<Rightarrow> Options" where
  "set_delay options =
     (if \<not> truthy_number (delay options)
      then options\<lparr>delay := Some (Finite 0)\<rparr> else options)"

definition set_disableAnimations :: "Options \<Rightarrow> Options" where
  "set_disableAnimations options =
     (if \<not> truthy_boolean (disableAnimations options)
      then options\<lparr>disableAnimations := Some False\<rparr> else options)"

definition after_defaults :: "exn + string \<Rightarrow> Config \<Rightarrow> Options \<Rightarrow> Options \<times> exn option" where
  "after_defaults findChrome config options = (case findChrome of
           Inl e \<Rightarrow> (options, Some e)
         | Inr path \<Rightarrow>
             let launch = \<lparr>args = [], executablePath = path,
                           LaunchOptions.defaultViewport = BrowserConfig.defaultViewport (browser config)\<rparr>;
                 launch =
                   (case proxyServer (browser config) of
                      None \<Rightarrow> launch
                    | Some proxy \<Rightarrow>
                        if proxy \<noteq> []
                        then launch\<lparr>args := args launch @ [''--proxy-server='' @ proxy]\<rparr>
                        else launch);
                 options = options\<lparr>launchOptions := Some launch\<rparr>;
                 options =
                   (case viewport options of
                      None \<Rightarrow> options
                    | Some v \<Rightarrow>
                        if v \<noteq> [] then
                          let segments = split (unit_of CHR ''x'') v;
                              w = unary_plus (element_at segments 0);
                              h = unary_plus (element_at segments 1)
                          in options\<lparr>Options.width := Some w, Options.height := Some h\<rparr>
                        else options)
             in (options, None))"

definition proxy_args :: "Config \<Rightarrow> string list" where
  "proxy_args c =
     (case proxyServer (browser c) of
        None \<Rightarrow> []
      | Some proxy \<Rightarrow> if proxy \<noteq> [] then [''--proxy-server='' @ proxy] else [])"

definition launch_of :: "string \<Rightarrow> Config \<Rightarrow> LaunchOptions" where
  "launch_of path c =
     \<lparr>args = proxy_args c, executablePath = path,
      LaunchOptions.defaultViewport = BrowserConfig.defaultViewport (browser c)\<rparr>"

text \<open>The options object that \<open>render\<close> hands to the engine when a browser was found.\<close>

definition request_of :: "string \<Rightarrow> string \<Rightarrow> Options \<Rightarrow> Config option \<Rightarrow> Options" where
  "request_of path subject opts config =
     (let resolved =
            fst (makeOptions (Inr path) opts
                   (case config of None \<Rightarrow> defaultConfig | Some c \<Rightarrow> c))
      in if isUrl subject then resolved else resolved\<lparr>inputType := Some ''html''\<rparr>)"


subsection \<open>The grammar of numeric strings\<close>

text \<open>
  \<^verbatim>\<open>StringNumericLiteral\<close> of ECMAScript, production by production and without
  reference to the conversion function above: white space, the classes of digits,
  \<^verbatim>\<open>ExponentPart\<close>, \<^verbatim>\<open>StrUnsignedDecimalLiteral\<close>, \<^verbatim>\<open>NonDecimalIntegerLiteral\<close>,
  \<^verbatim>\<open>StrNumericLiteral\<close>, and a string that is white space around nothing or around one
  such literal.
\<close>

definition white_space :: "code_unit \<Rightarrow> bool" where
  "white_space c \<longleftrightarrow>
     c \<in> {0x09..0x0D} \<union> {0x20, 0xA0, 0x1680} \<union> {0x2000..0x200A} \<union>
         {0x2028, 0x2029, 0x202F, 0x205F, 0x3000, 0xFEFF}"

definition decimal_digit :: "code_unit \<Rightarrow> bool" where
  "decimal_digit c \<longleftrightarrow> 0x30 \<le> c \<and> c \<le> 0x39"

definition hex_digit :: "code_unit \<Rightarrow> bool" where
  "hex_digit c \<longleftrightarrow> 0x30 \<le> c \<and> c \<le> 0x39 \<or> 0x61 \<le> c \<and> c \<le> 0x66 \<or> 0x41 \<le> c \<and> c \<le> 0x46"

definition octal_digit :: "code_unit \<Rightarrow> bool" where
  "octal_digit c \<longleftrightarrow> 0x30 \<le> c \<and> c \<le> 0x37"

definition binary_digit :: "code_unit \<Rightarrow> bool" where
  "binary_digit c \<longleftrightarrow> c = 0x30 \<or> c = 0x31"

definition digits :: "(code_unit \<Rightarrow> bool) \<Rightarrow> code_unit list \<Rightarrow> bool" where
  "digits P ds \<longleftrightarrow> ds \<noteq> [] \<and> (\<forall>c\<in>set ds. P c)"

definition decimal_digits :: "code_unit list \<Rightarrow> bool" where
  "decimal_digits ds \<longleftrightarrow> digits decimal_digit ds"

text \<open>The number that a run of decimal digits writes.\<close>

definition written_number :: "code_unit list \<Rightarrow> nat" where
  "written_number ds = foldl (\<lambda>n c. 10 * n + (c - 0x30)) 0 ds"

definition sign :: "code_unit list \<Rightarrow> bool" where
  "sign sg \<longleftrightarrow> sg = [] \<or> sg = ascii ''+'' \<or> sg = ascii ''-''"

definition exponent_part_form :: "code_unit list \<Rightarrow> bool" where
  "exponent_part_form ex \<longleftrightarrow>
     (\<exists>i sg ds. ex = i # sg @ ds \<and> (i = unit_of CHR ''e'' \<or> i = unit_of CHR ''E'') \<and>
                sign sg \<and> decimal_digits ds)"

definition unsigned_decimal_form :: "code_unit list \<Rightarrow> bool" where
  "unsigned_decimal_form u \<longleftrightarrow>
     u = ascii ''Infinity'' \<or>
     (\<exists>ip fp ex.
        (ex = [] \<or> exponent_part_form ex) \<and>
        (decimal_digits ip \<and> (\<forall>c\<in>set fp. decimal_digit c) \<and> u = ip @ ascii ''.'' @ fp @ ex \<or>
         ip = [] \<and> decimal_digits fp \<and> u = ascii ''.'' @ fp @ ex \<or>
         decimal_digits ip \<and> fp = [] \<and> u = ip @ ex))"

definition non_decimal_form :: "code_unit list \<Rightarrow> bool" where
  "non_decimal_form s \<longleftrightarrow>
     (\<exists>p ds. s = unit_of CHR ''0'' # p # ds \<and>
        ((p = unit_of CHR ''x'' \<or> p = unit_of CHR ''X'') \<and> digits hex_digit ds \<or>
         (p = unit_of CHR ''o'' \<or> p = unit_of CHR ''O'') \<and> digits octal_digit ds \<or>
         (p = unit_of CHR ''b'' \<or> p = unit_of CHR ''B'') \<and> digits binary_digit ds))"

definition str_numeric_literal :: "code_unit list \<Rightarrow> bool" where
  "str_numeric_literal b \<longleftrightarrow>
     non_decimal_form b \<or> (\<exists>sg u. b = sg @ u \<and> sign sg \<and> unsigned_decimal_form u)"

definition string_numeric_literal :: "code_unit list \<Rightarrow> bool" where
  "string_numeric_literal s \<longleftrightarrow>
     (\<exists>w1 b w2. s = w1 @ b @ w2 \<and> (\<forall>c\<in>set w1. white_space c) \<and> (\<forall>c\<in>set w2. white_space c) \<and>
        (b = [] \<or> str_numeric_literal b))"

text \<open>The finite doubles: an integer of magnitude below \<open>2^53\<close> times a power of two
  with exponent from \<open>-1074\<close> to \<open>971\<close>.\<close>

definition is_double :: "rat \<Rightarrow> bool" where
  "is_double d \<longleftrightarrow>
     (\<exists>k e. \<bar>k\<bar> < 2 ^ 53 \<and> - 1074 \<le> e \<and> e \<le> 971 \<and> d = of_int k * 2 powi e)"

subsection \<open>The resolver in normal form\<close>

lemma set_viewport_upd:
  "set_viewport c opts = opts\<lparr>viewport := default_string (viewport_of_config c) (viewport opts)\<rparr>"
  by (simp add: set_viewport_def default_string_def viewport_of_config_def)

lemma set_scaleFactor_upd:
  "set_scaleFactor c opts =
     opts\<lparr>scaleFactor :=
            default_number (deviceScaleFactor (BrowserConfig.defaultViewport (browser c)))
              (scaleFactor opts)\<rparr>"
  by (simp add: set_scaleFactor_def default_number_def)

lemma set_type_upd: "set_type opts = opts\<lparr>type := default_string ''png'' (type opts)\<rparr>"
  by (simp add: set_type_def default_string_def)

lemma set_quality_upd:
  "set_quality opts = opts\<lparr>quality := default_quality (type opts) (quality opts)\<rparr>"
  by (simp add: set_quality_def default_quality_def)

lemma set_timeout_upd:
  "set_timeout opts = opts\<lparr>timeout := default_number (Finite 60) (timeout opts)\<rparr>"
  by (simp add: set_timeout_def default_number_def)

lemma set_delay_upd:
  "set_delay opts = opts\<lparr>delay := default_number (Finite 0) (delay opts)\<rparr>"
  by (simp add: set_delay_def default_number_def)

lemma set_disableAnimations_upd:
  "set_disableAnimations opts =
     opts\<lparr>disableAnimations := default_boolean False (disableAnimations opts)\<rparr>"
  by (simp add: set_disableAnimations_def default_boolean_def)

lemma statements_defaults:
  "set_disableAnimations (set_delay (set_timeout (set_quality (set_type
     (set_scaleFactor c (set_viewport c opts)))))) = defaults c opts"
  by (simp add: set_viewport_upd set_scaleFactor_upd set_type_upd set_quality_upd
        set_timeout_upd set_delay_upd set_disableAnimations_upd defaults_def)

lemma makeOptions_statements:
  "makeOptions fc opts c =
     after_defaults fc c
       (set_disableAnimations (set_delay (set_timeout (set_quality (set_type
          (set_scaleFactor c (set_viewport c opts)))))))"
  unfolding makeOptions_def after_defaults_def set_viewport_def set_scaleFactor_def
    set_type_def set_quality_def set_timeout_def set_delay_def set_disableAnimations_def Let_def
  by (rule refl)

lemma viewport_of_config_nonempty: "viewport_of_config c \<noteq> []"
  by (simp add: viewport_of_config_def ascii_def)

lemma default_viewport_resolved:
  "default_string (viewport_of_config c) (viewport opts) = Some (resolved_viewport c opts)"
  by (cases "viewport opts") (simp_all add: default_string_def resolved_viewport_def)

lemma resolved_viewport_nonempty: "resolved_viewport c opts \<noteq> []"
  by (cases "viewport opts") (simp_all add: resolved_viewport_def viewport_of_config_nonempty)

lemma viewport_defaults: "viewport (defaults c opts) = Some (resolved_viewport c opts)"
  by (simp add: defaults_def default_viewport_resolved)

text \<open>If \<^verbatim>\<open>findChrome()\<close> throws, the object is left with the defaults applied and
  nothing else; if it returns, the launch options and the two dimensions are added.\<close>

lemma makeOptions_Inl: "makeOptions (Inl e) opts c = (defaults c opts, Some e)"
  by (simp add: makeOptions_statements statements_defaults after_defaults_def)

lemma makeOptions_Inr:
  "makeOptions (Inr path) opts c =
     ((defaults c opts)
        \<lparr>launchOptions := Some (launch_of path c),
         Options.width :=
           Some (unary_plus (element_at (split (unit_of CHR ''x'') (resolved_viewport c opts)) 0)),
         Options.height :=
           Some (unary_plus (element_at (split (unit_of CHR ''x'') (resolved_viewport c opts)) 1))\<rparr>,
      None)"
  by (simp add: makeOptions_statements statements_defaults after_defaults_def Let_def
        viewport_defaults resolved_viewport_nonempty launch_of_def proxy_args_def
      split: option.split)

lemma resolved_defaulted_fields:
  "timeout (fst (makeOptions fc opts c)) = default_number (Finite 60) (timeout opts)"
  "type (fst (makeOptions fc opts c)) = default_string ''png'' (type opts)"
  "quality (fst (makeOptions fc opts c)) =
     default_quality (default_string ''png'' (type opts)) (quality opts)"
  by (cases fc; simp add: makeOptions_Inl makeOptions_Inr defaults_def)+

subsection \<open>Defaults of \<^verbatim>\<open>timeout\<close> and \<^verbatim>\<open>quality\<close>\<close>

text \<open>What the code does: a truthy caller value is kept, anything falsy (missing, \<open>0\<close>,
  \<open>NaN\<close>) is replaced by the default.\<close>

lemma resolved_timeout:
  "timeout (fst (makeOptions fc opts c)) =
     (if truthy_number (timeout opts) then timeout opts else Some (Finite 60))"
  by (simp add: resolved_defaulted_fields default_number_def)

lemma resolved_quality:
  "quality (fst (makeOptions fc opts c)) =
     (if \<not> truthy_number (quality opts) \<and> type (fst (makeOptions fc opts c)) \<noteq> Some ''png''
      then Some (Finite 1) else quality opts)"
  by (simp add: resolved_defaulted_fields default_quality_def)

text \<open>
  Claim C1: the resolved timeout is the caller's value whenever one is supplied, \<open>0\<close>
  (no timeout) included, and \<open>60\<close> otherwise. The code does not do this: a supplied
  timeout of \<open>0\<close> is falsy and is replaced by \<open>60\<close>.
\<close>

theorem timeout_zero_replaced:
  "timeout (fst (makeOptions (Inr ''/usr/bin/chromium'')
                   (no_options\<lparr>timeout := Some (Finite 0)\<rparr>) defaultConfig))
     = Some (Finite 60)"
  by (simp add: resolved_defaulted_fields default_number_def)

text \<open>
  Claim C2: the resolved quality is the caller's value whenever one is supplied;
  otherwise it is \<open>1\<close> for jpeg and webp and unset for png. The code does not do this:
  a supplied quality of \<open>0\<close> with type jpeg is falsy and is replaced by \<open>1\<close>.
\<close>

theorem quality_zero_replaced:
  "quality (fst (makeOptions (Inr ''/usr/bin/chromium'')
                   (no_options\<lparr>type := Some ''jpeg'', quality := Some (Finite 0)\<rparr>)
                   defaultConfig))
     = Some (Finite 1)"
  by (simp add: resolved_defaulted_fields default_number_def default_quality_def
        default_string_def)

text \<open>The part of both claims that the code keeps: with nothing supplied the timeout is
  \<open>60\<close>, the quality is \<open>1\<close> for every type but png and stays unset for png.\<close>

lemma unsupplied_timeout_quality:
  assumes "timeout opts = None" and "quality opts = None"
  shows "timeout (fst (makeOptions fc opts c)) = Some (Finite 60)"
    and "type (fst (makeOptions fc opts c)) = Some ''png'' \<Longrightarrow>
           quality (fst (makeOptions fc opts c)) = None"
    and "type (fst (makeOptions fc opts c)) \<noteq> Some ''png'' \<Longrightarrow>
           quality (fst (makeOptions fc opts c)) = Some (Finite 1)"
  using assms by (simp_all add: resolved_defaulted_fields default_number_def default_quality_def)

subsection \<open>Launch arguments\<close>

text \<open>
  Claim C6: after resolution \<^verbatim>\<open>launchOptions.args\<close> holds exactly the one entry
  \<^verbatim>\<open>--proxy-server=<proxyServer>\<close> if the browser configuration has a non-empty
  \<^verbatim>\<open>proxyServer\<close>, and is empty otherwise.
\<close>

theorem launchOptions_args:
  "map_option args (launchOptions (fst (makeOptions (Inr path) opts c))) =
     Some (case proxyServer (browser c) of
             None \<Rightarrow> []
           | Some proxy \<Rightarrow> if proxy \<noteq> [] then [''--proxy-server='' @ proxy] else [])"
  by (simp add: makeOptions_Inr launch_of_def proxy_args_def)

theorem launchOptions_args_witness:
  "map_option args (launchOptions (fst (makeOptions (Inr ''/usr/bin/chromium'') no_options
      \<lparr>browser = \<lparr>BrowserConfig.defaultViewport =
                    \<lparr>DefaultViewport.width = 1280, DefaultViewport.height = 800,
                     deviceScaleFactor = Finite 2\<rparr>,
                  proxyServer = Some ''socks5://127.0.0.1:1080''\<rparr>\<rparr>)))
     = Some [''--proxy-server=socks5://127.0.0.1:1080''] \<and>
   map_option args (launchOptions (fst (makeOptions (Inr ''/usr/bin/chromium'') no_options
      defaultConfig))) = Some [] \<and>
   map_option args (launchOptions (fst (makeOptions (Inr ''/usr/bin/chromium'') no_options
      \<lparr>browser = \<lparr>BrowserConfig.defaultViewport =
                    \<lparr>DefaultViewport.width = 1280, DefaultViewport.height = 800,
                     deviceScaleFactor = Finite 2\<rparr>,
                  proxyServer = Some ''''\<rparr>\<rparr>))) = Some []"
  by (simp add: launchOptions_args defaultConfig_def)

subsection \<open>Idempotence\<close>

lemma default_string_idem:
  "d \<noteq> [] \<Longrightarrow> default_string d (default_string d v) = default_string d v"
  by (simp add: default_string_def)

lemma default_number_idem: "default_number d (default_number d v) = default_number d v"
  by (simp add: default_number_def)

lemma default_boolean_idem: "default_boolean d (default_boolean d v) = default_boolean d v"
  by (simp add: default_boolean_def)

lemma default_quality_idem: "default_quality t (default_quality t q) = default_quality t q"
  by (simp add: default_quality_def)

lemma defaults_idem: "defaults c (defaults c opts) = defaults c opts"
  by (simp add: defaults_def default_string_idem default_number_idem default_boolean_idem
        default_quality_idem viewport_of_config_nonempty)

lemma defaults_added_fields:
  "defaults c (opts\<lparr>launchOptions := l, Options.width := w, Options.height := h\<rparr>) =
     (defaults c opts)\<lparr>launchOptions := l, Options.width := w, Options.height := h\<rparr>"
  by (simp add: defaults_def)

lemma resolved_viewport_defaults:
  "resolved_viewport c
     ((defaults c opts)\<lparr>launchOptions := l, Options.width := w, Options.height := h\<rparr>) =
   resolved_viewport c opts"
  by (simp add: resolved_viewport_def
        [of c "_\<lparr>launchOptions := l, Options.width := w, Options.height := h\<rparr>"]
      viewport_defaults resolved_viewport_nonempty)

text \<open>
  Claim C8: resolution is deterministic and idempotent. The outcome is a function of
  the caller's options, the configuration and the outcome of \<^verbatim>\<open>findChrome()\<close>; with
  these the same, resolving an already resolved object again leaves it as it is,
  whether the browser was found or not.
\<close>

theorem makeOptions_idempotent:
  "makeOptions fc (fst (makeOptions fc opts c)) c = makeOptions fc opts c"
proof (cases fc)
  case (Inl e)
  then show ?thesis by (simp add: makeOptions_Inl defaults_idem)
next
  case (Inr path)
  then show ?thesis
    by (simp add: makeOptions_Inr defaults_idem defaults_added_fields resolved_viewport_defaults)
qed

theorem makeOptions_idempotent_witness:
  "makeOptions (Inr ''/usr/bin/chromium'')
     (fst (makeOptions (Inr ''/usr/bin/chromium'') (no_options\<lparr>type := Some ''webp''\<rparr>)
             defaultConfig))
     defaultConfig =
   makeOptions (Inr ''/usr/bin/chromium'') (no_options\<lparr>type := Some ''webp''\<rparr>) defaultConfig"
  by (rule makeOptions_idempotent)

subsection \<open>Frame\<close>

text \<open>
  Claim C9: resolution mutates the caller's options object in place (here: returns its
  new state) and changes only \<^verbatim>\<open>viewport\<close>, \<^verbatim>\<open>scaleFactor\<close>, \<^verbatim>\<open>type\<close>, \<^verbatim>\<open>quality\<close>,
  \<^verbatim>\<open>timeout\<close>, \<^verbatim>\<open>delay\<close>, \<^verbatim>\<open>disableAnimations\<close>, \<^verbatim>\<open>launchOptions\<close>, \<^verbatim>\<open>width\<close> and
  \<^verbatim>\<open>height\<close>; every other field keeps the value the caller supplied.
\<close>

theorem makeOptions_frame:
  "(\<exists>v sf t q tmo d da lo w h.
      fst (makeOptions fc opts c) =
        opts\<lparr>viewport := v, scaleFactor := sf, type := t, quality := q, timeout := tmo,
             delay := d, disableAnimations := da, launchOptions := lo,
             Options.width := w, Options.height := h\<rparr>) \<and>
   fullPage (fst (makeOptions fc opts c)) = fullPage opts \<and>
   darkMode (fst (makeOptions fc opts c)) = darkMode opts \<and>
   waitForElement (fst (makeOptions fc opts c)) = waitForElement opts \<and>
   element (fst (makeOptions fc opts c)) = element opts \<and>
   hideElements (fst (makeOptions fc opts c)) = hideElements opts \<and>
   removeElements (fst (makeOptions fc opts c)) = removeElements opts \<and>
   clickElement (fst (makeOptions fc opts c)) = clickElement opts \<and>
   scrollToElement (fst (makeOptions fc opts c)) = scrollToElement opts \<and>
   noJavascript (fst (makeOptions fc opts c)) = noJavascript opts \<and>
   script (fst (makeOptions fc opts c)) = script opts \<and>
   style (fst (makeOptions fc opts c)) = style opts \<and>
   header (fst (makeOptions fc opts c)) = header opts \<and>
   userAgent (fst (makeOptions fc opts c)) = userAgent opts \<and>
   cookie (fst (makeOptions fc opts c)) = cookie opts \<and>
   authentication (fst (makeOptions fc opts c)) = authentication opts \<and>
   clip (fst (makeOptions fc opts c)) = clip opts \<and>
   inset (fst (makeOptions fc opts c)) = inset opts"
proof -
  have "\<exists>v sf t q tmo d da lo w h.
      fst (makeOptions fc opts c) =
        opts\<lparr>viewport := v, scaleFactor := sf, type := t, quality := q, timeout := tmo,
             delay := d, disableAnimations := da, launchOptions := lo,
             Options.width := w, Options.height := h\<rparr>"
  proof (cases fc)
    case (Inl e)
    have "defaults c opts = (defaults c opts)\<lparr>launchOptions := launchOptions opts,
        Options.width := Options.width opts, Options.height := Options.height opts\<rparr>"
      by (simp add: defaults_def)
    then show ?thesis
      unfolding Inl makeOptions_Inl fst_conv defaults_def by blast
  next
    case (Inr path)
    show ?thesis
      unfolding Inr makeOptions_Inr fst_conv defaults_def by blast
  qed
  moreover have "fst (makeOptions fc opts c) =
      opts\<lparr>viewport := v, scaleFactor := sf, type := t, quality := q, timeout := tmo,
           delay := d, disableAnimations := da, launchOptions := lo,
           Options.width := w, Options.height := h\<rparr> \<Longrightarrow> ?thesis"
    for v sf t q tmo d da lo w h
    by (rule conjI, blast) simp
  ultimately show ?thesis by blast
qed

theorem makeOptions_frame_witness:
  "fullPage (fst (makeOptions (Inr ''/usr/bin/chromium'')
       (no_options\<lparr>fullPage := Some True, userAgent := Some ''Mozilla/5.0'',
                   clip := Some ''0,0,100,100''\<rparr>) defaultConfig)) = Some True \<and>
   userAgent (fst (makeOptions (Inr ''/usr/bin/chromium'')
       (no_options\<lparr>fullPage := Some True, userAgent := Some ''Mozilla/5.0'',
                   clip := Some ''0,0,100,100''\<rparr>) defaultConfig)) = Some ''Mozilla/5.0'' \<and>
   clip (fst (makeOptions (Inr ''/usr/bin/chromium'')
       (no_options\<lparr>fullPage := Some True, userAgent := Some ''Mozilla/5.0'',
                   clip := Some ''0,0,100,100''\<rparr>) defaultConfig)) = Some ''0,0,100,100'' \<and>
   darkMode (fst (makeOptions (Inr ''/usr/bin/chromium'')
       (no_options\<lparr>fullPage := Some True, userAgent := Some ''Mozilla/5.0'',
                   clip := Some ''0,0,100,100''\<rparr>) defaultConfig)) = None"
  using makeOptions_frame [of "Inr ''/usr/bin/chromium''"
      "no_options\<lparr>fullPage := Some True, userAgent := Some ''Mozilla/5.0'',
                  clip := Some ''0,0,100,100''\<rparr>" defaultConfig]
  by (simp add: no_options_def)

subsection \<open>The classifier\<close>

lemma prefix_append_drop:
  "prefix (a @ b) s \<longleftrightarrow> prefix a s \<and> prefix b (drop (length a) s)"
proof (induction a arbitrary: s)
  case Nil
  show ?case by simp
next
  case (Cons x a)
  show ?case by (cases s) (simp_all add: Cons)
qed

lemma take_eq_prefix: "take (length cs) s = cs \<longleftrightarrow> prefix cs s"
  by (metis append_take_drop_id prefix_def append_eq_conv_conj)

lemma match_at_Lit:
  "match_at s (Lit cs) i = (if prefix cs (drop i s) then [i + length cs] else [])"
  by (simp add: take_eq_prefix)

text \<open>Both alternatives start with \<^verbatim>\<open>^\<close>, so no match starts after position \<open>0\<close>.\<close>

lemma match_at_isUrl_regex_later: "0 < i \<Longrightarrow> match_at s isUrl_regex i = []"
  by (simp add: isUrl_regex_def)

lemma match_at_isUrl_regex_start:
  "match_at s isUrl_regex 0 \<noteq> [] \<longleftrightarrow>
     prefix ''http://'' s \<or> prefix ''https://'' s \<or> prefix ''file://'' s \<or> prefix ''data:'' s"
proof -
  have a: "prefix ''http://'' s \<longleftrightarrow> prefix ''http'' s \<and> prefix ''://'' (drop 4 s)"
    using prefix_append_drop[of "''http''" "''://''" s] by (simp add: eval_nat_numeral)
  have b: "prefix ''https://'' s \<longleftrightarrow>
      prefix ''http'' s \<and> prefix ''s'' (drop 4 s) \<and> prefix ''://'' (drop 5 s)"
    using prefix_append_drop[of "''http''" "''s://''" s]
      prefix_append_drop[of "''s''" "''://''" "drop 4 s"]
    by (simp add: eval_nat_numeral)
  have c: "prefix ''file://'' s \<longleftrightarrow> prefix ''file'' s \<and> prefix ''://'' (drop 4 s)"
    using prefix_append_drop[of "''file''" "''://''" s] by (simp add: eval_nat_numeral)
  have d: "match_at s (Seq (Alt (Seq (Lit ''http'') (Opt (Lit ''s''))) (Lit ''file''))
                        (Lit ''://'')) 0 \<noteq> [] \<longleftrightarrow>
       prefix ''http'' s \<and>
         (prefix ''s'' (drop 4 s) \<and> prefix ''://'' (drop 5 s) \<or> prefix ''://'' (drop 4 s))
       \<or> prefix ''file'' s \<and> prefix ''://'' (drop 4 s)"
    by (cases "prefix ''http'' s"; cases "prefix ''file'' s"; cases "prefix ''s'' (drop 4 s)";
        cases "prefix ''://'' (drop 4 s)"; cases "prefix ''://'' (drop 5 s)")
       (simp_all add: match_at_Lit eval_nat_numeral del: match_at.simps(1))
  have e: "match_at s isUrl_regex 0 \<noteq> [] \<longleftrightarrow>
       match_at s (Seq (Alt (Seq (Lit ''http'') (Opt (Lit ''s''))) (Lit ''file''))
                     (Lit ''://'')) 0 \<noteq> []
       \<or> prefix ''data:'' s"
    by (cases "prefix ''data:'' s")
       (simp_all add: isUrl_regex_def match_at_Lit del: match_at.simps(1))
  show ?thesis
    unfolding e d a b c by blast
qed

lemma isUrl_at_start: "isUrl s \<longleftrightarrow> match_at s isUrl_regex 0 \<noteq> []"
proof
  assume "isUrl s"
  then obtain i where "match_at s isUrl_regex i \<noteq> []"
    by (auto simp: isUrl_def test_def list_ex_iff simp del: upt_Suc)
  then show "match_at s isUrl_regex 0 \<noteq> []"
    using match_at_isUrl_regex_later[of i s] by (cases "i = 0") auto
next
  assume "match_at s isUrl_regex 0 \<noteq> []"
  then show "isUrl s"
    by (auto simp: isUrl_def test_def list_ex_iff simp del: upt_Suc)
qed

text \<open>
  Claim C3: a subject is classified as a URL exactly when it starts with
  \<^verbatim>\<open>http://\<close>, \<^verbatim>\<open>https://\<close>, \<^verbatim>\<open>file://\<close> or \<^verbatim>\<open>data:\<close>, the prefix compared
  character by character (so case-sensitively) and only at the start of the string;
  every other subject is HTML.
\<close>

theorem isUrl_iff:
  "isUrl s \<longleftrightarrow>
     prefix ''http://'' s \<or> prefix ''https://'' s \<or> prefix ''file://'' s \<or> prefix ''data:'' s"
  by (simp only: isUrl_at_start match_at_isUrl_regex_start)

theorem isUrl_witness:
  "isUrl ''https://example.com'' \<and> isUrl ''http://a'' \<and> isUrl ''file:///tmp/a.html'' \<and>
   isUrl ''data:text/html,hi'' \<and>
   \<not> isUrl ''HTTP://example.com'' \<and> \<not> isUrl '' http://example.com'' \<and>
   \<not> isUrl ''<a href=http://a>'' \<and> \<not> isUrl ''ftp://a'' \<and> \<not> isUrl ''''"
  by (simp add: isUrl_iff)

subsection \<open>The invoker\<close>

lemma render_found:
  "render engine (Inr path) subject opts config =
     \<lparr>result = (case engine subject (request_of path subject opts config) of
                   Inl err \<Rightarrow> Inl (Error ''capture website failed.'')
                 | Inr img \<Rightarrow> Inr img),
      options_after = request_of path subject opts config,
      engine_calls = [(subject, request_of path subject opts config)]\<rparr>"
  by (simp add: render_def makeOptions_Inr request_of_def Let_def split: sum.split)


text \<open>
  Claim C4: when no browser executable is found, resolution fails with the error of the
  discovery, \<open>render\<close> fails with that very error and not with the generic one, and the
  engine is not called.
\<close>

theorem render_browser_not_found:
  "snd (makeOptions (Inl e) opts c) = Some e \<and>
   result (render engine (Inl e) subject opts config) = Inl e \<and>
   engine_calls (render engine (Inl e) subject opts config) = []"
  by (simp add: render_def makeOptions_Inl)

theorem render_browser_not_found_witness:
  "result (render (\<lambda>s r. Inr []) (Inl (Error ''no chrome installations found''))
             ''https://example.com'' no_options None)
     = Inl (Error ''no chrome installations found'') \<and>
   result (render (\<lambda>s r. Inr []) (Inl (Error ''no chrome installations found''))
             ''https://example.com'' no_options None)
     \<noteq> Inl (Error ''capture website failed.'') \<and>
   engine_calls (render (\<lambda>s r. Inr []) (Inl (Error ''no chrome installations found''))
             ''https://example.com'' no_options None) = []"
  using render_browser_not_found
    [of "Error ''no chrome installations found''" no_options defaultConfig
        "\<lambda>s r. Inr []" "''https://example.com''" None]
  by simp

text \<open>
  Claim C5: when a browser was found, \<open>render\<close> calls the engine once, with the subject
  and the options object; if the engine fails, whatever its error, \<open>render\<close> fails with
  the one error \<^verbatim>\<open>capture website failed.\<close>; if the engine returns an image, \<open>render\<close>
  returns these bytes.
\<close>

theorem render_engine_failure:
  "let r = render engine (Inr path) subject opts config
   in engine_calls r = [(subject, options_after r)] \<and>
      result r = (case engine subject (options_after r) of
                    Inl err \<Rightarrow> Inl (Error ''capture website failed.'')
                  | Inr img \<Rightarrow> Inr img)"
  by (simp add: render_found)

theorem render_engine_failure_witness:
  "result (render (\<lambda>s r. Inl (Error ''net::ERR_NAME_NOT_RESOLVED at https://example.invalid''))
             (Inr ''/usr/bin/chromium'') ''https://example.invalid'' no_options None)
     = Inl (Error ''capture website failed.'') \<and>
   result (render (\<lambda>s r. Inr [0x89, 0x50, 0x4E, 0x47])
             (Inr ''/usr/bin/chromium'') ''https://example.com'' no_options None)
     = Inr [0x89, 0x50, 0x4E, 0x47]"
  using render_engine_failure
      [of "\<lambda>s r. Inl (Error ''net::ERR_NAME_NOT_RESOLVED at https://example.invalid'')"
          "''/usr/bin/chromium''" "''https://example.invalid''" no_options None]
    render_engine_failure
      [of "\<lambda>s r. Inr [0x89, 0x50, 0x4E, 0x47]"
          "''/usr/bin/chromium''" "''https://example.com''" no_options None]
  by (simp add: Let_def)




subsection \<open>Splitting the viewport\<close>

text \<open>A string without the separator is its own single segment; the first segment ends
  at the first separator.\<close>

lemma split_from_no_sep: "c \<notin> set s \<Longrightarrow> split_from c seg s = [rev seg @ s]"
  by (induction s arbitrary: seg) auto

lemma split_from_sep:
  "c \<notin> set w \<Longrightarrow> split_from c seg (w @ c # rest) = (rev seg @ w) # split_from c [] rest"
  by (induction w arbitrary: seg) auto

lemma split_no_sep: "c \<notin> set s \<Longrightarrow> split c s = [s]"
  by (simp add: split_def split_from_no_sep)

lemma split_two: "c \<notin> set w \<Longrightarrow> c \<notin> set h \<Longrightarrow> split c (w @ [c] @ h) = [w, h]"
  by (simp add: split_def split_from_sep split_from_no_sep)

subsection \<open>Characters\<close>

text \<open>The character classes of the conversion function are those of the grammar.\<close>

lemma white_space_iff: "isStrWhiteSpaceChar c \<longleftrightarrow> white_space c"
proof -
  have a: "c \<in> {0x09..0x0D} \<longleftrightarrow> c = 0x09 \<or> c = 0x0A \<or> c = 0x0B \<or> c = 0x0C \<or> c = 0x0D"
    by (simp only: atLeastAtMost_iff) arith
  have b: "c \<in> {0x2000..0x200A} \<longleftrightarrow>
      c = 0x2000 \<or> c = 0x2001 \<or> c = 0x2002 \<or> c = 0x2003 \<or> c = 0x2004 \<or> c = 0x2005 \<or>
      c = 0x2006 \<or> c = 0x2007 \<or> c = 0x2008 \<or> c = 0x2009 \<or> c = 0x200A"
    by (simp only: atLeastAtMost_iff) arith
  show ?thesis
    unfolding isStrWhiteSpaceChar_def white_space_def Un_iff a b
    by (simp only: set_simps insert_iff empty_iff) blast
qed

lemma digit_value_decimal: "decimal_digit c \<Longrightarrow> digit_value c = Some (c - 0x30)"
  by (simp add: decimal_digit_def digit_value_def unit_of_def)

lemma is_digit_of_10_iff: "is_digit_of 10 c \<longleftrightarrow> decimal_digit c"
  by (auto simp: is_digit_of_def digit_value_def decimal_digit_def unit_of_def)

lemma is_digit_of_16_iff: "is_digit_of 16 c \<longleftrightarrow> hex_digit c"
  by (auto simp: is_digit_of_def digit_value_def hex_digit_def unit_of_def)

lemma is_digit_of_8_iff: "is_digit_of 8 c \<longleftrightarrow> octal_digit c"
  by (auto simp: is_digit_of_def digit_value_def octal_digit_def unit_of_def)

lemma is_digit_of_2_iff: "is_digit_of 2 c \<longleftrightarrow> binary_digit c"
  by (auto simp: is_digit_of_def digit_value_def binary_digit_def unit_of_def)

lemma list_all_decimal: "list_all (is_digit_of 10) ds \<longleftrightarrow> (\<forall>c\<in>set ds. decimal_digit c)"
  by (simp add: list_all_iff is_digit_of_10_iff)

text \<open>What a decimal digit is not.\<close>

lemma decimal_digit_facts:
  assumes "decimal_digit c"
  shows "c \<noteq> unit_of CHR ''-''" "c \<noteq> unit_of CHR ''+''" "c \<noteq> unit_of CHR ''.''"
    "c \<noteq> unit_of CHR ''I''" "c \<noteq> unit_of CHR ''e''" "c \<noteq> unit_of CHR ''E''"
    "c \<noteq> unit_of CHR ''x''" "radix_of_prefix c = None" "\<not> white_space c"
  using assms
  by (simp_all add: decimal_digit_def unit_of_def radix_of_prefix_def white_space_def)

lemma hex_digit_not_white: "hex_digit c \<Longrightarrow> \<not> white_space c"
  by (auto simp: hex_digit_def white_space_def)

lemma octal_digit_hex: "octal_digit c \<Longrightarrow> hex_digit c"
  by (auto simp: hex_digit_def octal_digit_def)

lemma binary_digit_hex: "binary_digit c \<Longrightarrow> hex_digit c"
  by (auto simp: hex_digit_def binary_digit_def)

lemma decimal_digit_hex: "decimal_digit c \<Longrightarrow> hex_digit c"
  by (auto simp: hex_digit_def decimal_digit_def)

subsection \<open>Trimming\<close>

lemma trim_decomposition:
  "\<exists>w1 w2. s = w1 @ trim s @ w2 \<and> (\<forall>c\<in>set w1. white_space c) \<and> (\<forall>c\<in>set w2. white_space c)"
proof -
  define d where "d = dropWhile isStrWhiteSpaceChar s"
  define w1 where "w1 = takeWhile isStrWhiteSpaceChar s"
  define w2 where "w2 = rev (takeWhile isStrWhiteSpaceChar (rev d))"
  have s: "s = w1 @ d"
    by (simp add: w1_def d_def)
  have "rev (takeWhile isStrWhiteSpaceChar (rev d) @ dropWhile isStrWhiteSpaceChar (rev d)) = d"
    by simp
  then have "rev (dropWhile isStrWhiteSpaceChar (rev d)) @
      rev (takeWhile isStrWhiteSpaceChar (rev d)) = d"
    by (simp only: rev_append)
  then have d: "d = trim s @ w2"
    unfolding trim_def w2_def d_def by (rule sym)
  have "\<forall>c\<in>set w1. white_space c"
    by (auto simp: w1_def white_space_iff[symmetric] dest: set_takeWhileD)
  moreover have "\<forall>c\<in>set w2. white_space c"
    by (auto simp: w2_def white_space_iff[symmetric] dest: set_takeWhileD)
  ultimately show ?thesis
    using s d by auto
qed

lemma trim_white: "(\<forall>c\<in>set s. white_space c) \<Longrightarrow> trim s = []"
proof -
  assume "\<forall>c\<in>set s. white_space c"
  then have h: "dropWhile isStrWhiteSpaceChar s = []"
    by (simp add: white_space_iff)
  show ?thesis unfolding trim_def h by simp
qed

lemma trim_around:
  assumes w1: "\<forall>c\<in>set w1. white_space c" and w2: "\<forall>c\<in>set w2. white_space c"
    and b: "b \<noteq> []" "\<not> white_space (hd b)" "\<not> white_space (last b)"
  shows "trim (w1 @ b @ w2) = b"
proof -
  obtain x t where bx: "b = x # t" using b(1) by (cases b) auto
  obtain y i where bl: "b = i @ [y]" using b(1) by (cases b rule: rev_cases) auto
  have x: "\<not> isStrWhiteSpaceChar x" using b(2) by (simp add: bx white_space_iff)
  have y: "\<not> isStrWhiteSpaceChar y" using b(3) by (simp add: bl white_space_iff)
  have 1: "dropWhile isStrWhiteSpaceChar (w1 @ b @ w2) = b @ w2"
    using w1 x by (simp add: bx dropWhile_append white_space_iff)
  have "dropWhile isStrWhiteSpaceChar (rev w2 @ y # rev i) = y # rev i"
    using w2 y by (simp add: dropWhile_append white_space_iff)
  then have 2: "dropWhile isStrWhiteSpaceChar (rev (b @ w2)) = rev b"
    by (simp add: bl)
  show ?thesis
    unfolding trim_def 1 2 by simp
qed

subsection \<open>The conversion function accepts the grammar and nothing else\<close>

lemma decimal_digits_list_all: "decimal_digits ds \<longleftrightarrow> ds \<noteq> [] \<and> list_all (is_digit_of 10) ds"
  by (simp add: decimal_digits_def digits_def list_all_decimal)

lemma decimal_digits_hd:
  assumes "decimal_digits ds"
  shows "\<exists>c t. ds = c # t \<and> decimal_digit c"
  using assms by (cases ds) (auto simp: decimal_digits_def digits_def)

lemma signed_integer_unsigned:
  assumes "decimal_digits ds"
  shows "signed_integer ds = Some (int (digits_value 10 ds))"
proof -
  obtain c t where ds: "ds = c # t" and c: "decimal_digit c"
    using decimal_digits_hd[OF assms] by auto
  have "ds \<noteq> [] \<and> list_all (is_digit_of 10) ds"
    using assms by (simp add: decimal_digits_list_all)
  then show ?thesis
    unfolding signed_integer_def ds
    using decimal_digit_facts(1,2)[OF c] by simp
qed

lemma signed_integer_signed:
  assumes "decimal_digits ds" and "c = unit_of CHR ''-'' \<or> c = unit_of CHR ''+''"
  shows "\<exists>e. signed_integer (c # ds) = Some e"
proof -
  have "ds \<noteq> [] \<and> list_all (is_digit_of 10) ds"
    using assms(1) by (simp add: decimal_digits_list_all)
  then show ?thesis
    unfolding signed_integer_def using assms(2) by auto
qed

lemma signed_integer_parse:
  assumes "sign sg" and "decimal_digits ds"
  shows "\<exists>e. signed_integer (sg @ ds) = Some e"
proof (cases "sg = []")
  case True
  then show ?thesis using signed_integer_unsigned[OF assms(2)] by simp
next
  case False
  then have "sg = [unit_of CHR ''+''] \<or> sg = [unit_of CHR ''-'']"
    using assms(1) by (simp add: sign_def ascii_def)
  then show ?thesis
    using signed_integer_signed[OF assms(2)] by auto
qed

lemma signed_integer_form:
  assumes "signed_integer t = Some e"
  shows "\<exists>sg ds. t = sg @ ds \<and> sign sg \<and> decimal_digits ds"
proof (cases "\<exists>c t'. t = c # t' \<and> (c = unit_of CHR ''-'' \<or> c = unit_of CHR ''+'')")
  case True
  then obtain c t' where t: "t = c # t'" and c: "c = unit_of CHR ''-'' \<or> c = unit_of CHR ''+''"
    by auto
  have "t' \<noteq> [] \<and> list_all (is_digit_of 10) t'"
    using assms c by (auto simp: signed_integer_def t split: if_splits)
  then have "decimal_digits t'"
    by (simp add: decimal_digits_list_all)
  moreover have "sign [c]"
    using c by (auto simp: sign_def ascii_def)
  moreover have "t = [c] @ t'"
    by (simp add: t)
  ultimately show ?thesis by blast
next
  case False
  then have "signed_integer t =
      (if t \<noteq> [] \<and> list_all (is_digit_of 10) t then Some (int (digits_value 10 t)) else None)"
    by (cases t) (auto simp: signed_integer_def)
  then have "decimal_digits t"
    using assms by (auto simp: decimal_digits_list_all split: if_splits)
  moreover have "sign []" by (simp add: sign_def)
  moreover have "t = [] @ t" by simp
  ultimately show ?thesis by blast
qed

lemma exponent_part_iff:
  "(\<exists>e. exponent_part r = Some e) \<longleftrightarrow> r = [] \<or> exponent_part_form r"
proof (cases r)
  case Nil
  then show ?thesis by (simp add: exponent_part_def)
next
  case (Cons i t)
  show ?thesis
  proof (cases "i = unit_of CHR ''e'' \<or> i = unit_of CHR ''E''")
    case True
    then have e: "exponent_part r = signed_integer t"
      by (auto simp: exponent_part_def Cons)
    have si: "(\<exists>e. signed_integer t = Some e) \<longleftrightarrow>
        (\<exists>sg ds. t = sg @ ds \<and> sign sg \<and> decimal_digits ds)"
      using signed_integer_form signed_integer_parse by blast
    have f: "exponent_part_form r \<longleftrightarrow> (\<exists>sg ds. t = sg @ ds \<and> sign sg \<and> decimal_digits ds)"
      using True by (auto simp: exponent_part_form_def Cons)
    have "r \<noteq> []" by (simp add: Cons)
    then show ?thesis
      unfolding e f si by simp
  next
    case False
    then show ?thesis
      by (auto simp: exponent_part_def exponent_part_form_def Cons)
  qed
qed

lemma exponent_part_form_hd:
  assumes "exponent_part_form ex"
  shows "\<exists>i t. ex = i # t \<and> \<not> decimal_digit i \<and> i \<noteq> unit_of CHR ''.''"
  using assms
  by (auto simp: exponent_part_form_def decimal_digit_def unit_of_def)

lemma span_run:
  assumes "\<forall>c\<in>set xs. P c" and "ys = [] \<or> \<not> P (hd ys)"
  shows "takeWhile P (xs @ ys) = xs" and "dropWhile P (xs @ ys) = ys"
proof -
  have "takeWhile P ys = []" "dropWhile P ys = ys"
    using assms(2) by (cases ys; simp)+
  then show "takeWhile P (xs @ ys) = xs" and "dropWhile P (xs @ ys) = ys"
    using assms(1) by (simp_all add: takeWhile_append dropWhile_append)
qed

lemma exponent_tail:
  assumes "ex = [] \<or> exponent_part_form ex"
  shows "ex = [] \<or> \<not> is_digit_of 10 (hd ex)" and "ex = [] \<or> hd ex \<noteq> unit_of CHR ''.''"
    and "\<exists>e. exponent_part ex = Some e"
proof -
  show "ex = [] \<or> \<not> is_digit_of 10 (hd ex)"
    using assms exponent_part_form_hd[of ex] by (auto simp: is_digit_of_10_iff)
  show "ex = [] \<or> hd ex \<noteq> unit_of CHR ''.''"
    using assms exponent_part_form_hd[of ex] by auto
  show "\<exists>e. exponent_part ex = Some e"
    using assms by (simp add: exponent_part_iff)
qed

text \<open>The three productions of a decimal literal, each read by the conversion.\<close>

lemma unsigned_with_fraction:
  assumes ip: "\<forall>c\<in>set ip. decimal_digit c" and fp: "\<forall>c\<in>set fp. decimal_digit c"
    and ne: "ip \<noteq> [] \<or> fp \<noteq> []" and ex: "ex = [] \<or> exponent_part_form ex"
    and inf: "ip @ unit_of CHR ''.'' # fp @ ex \<noteq> ascii ''Infinity''"
  shows "unsigned_decimal_literal (ip @ unit_of CHR ''.'' # fp @ ex) \<noteq> Not_A_Literal"
proof -
  let ?P = "is_digit_of 10"
  have dot: "\<not> ?P (unit_of CHR ''.'')"
    using decimal_digit_facts(3) by (auto simp: is_digit_of_10_iff)
  have 1: "takeWhile ?P (ip @ unit_of CHR ''.'' # fp @ ex) = ip"
      "dropWhile ?P (ip @ unit_of CHR ''.'' # fp @ ex) = unit_of CHR ''.'' # fp @ ex"
    using span_run[of ip ?P "unit_of CHR ''.'' # fp @ ex"] ip dot
    by (simp_all add: is_digit_of_10_iff)
  have 2: "takeWhile ?P (fp @ ex) = fp" "dropWhile ?P (fp @ ex) = ex"
    using span_run[of fp ?P ex] fp exponent_tail(1)[OF ex]
    by (simp_all add: is_digit_of_10_iff)
  obtain e where e: "exponent_part ex = Some e"
    using exponent_tail(3)[OF ex] by auto
  show ?thesis
    unfolding unsigned_decimal_literal_def Let_def 1
    using inf ne by (simp add: 2 e)
qed

lemma unsigned_without_fraction:
  assumes ip: "decimal_digits ip" and ex: "ex = [] \<or> exponent_part_form ex"
  shows "unsigned_decimal_literal (ip @ ex) \<noteq> Not_A_Literal"
proof -
  let ?P = "is_digit_of 10"
  have all: "\<forall>c\<in>set ip. decimal_digit c" and ne: "ip \<noteq> []"
    using ip by (simp_all add: decimal_digits_def digits_def)
  have 1: "takeWhile ?P (ip @ ex) = ip" "dropWhile ?P (ip @ ex) = ex"
    using span_run[of ip ?P ex] all exponent_tail(1)[OF ex]
    by (simp_all add: is_digit_of_10_iff)
  obtain e where e: "exponent_part ex = Some e"
    using exponent_tail(3)[OF ex] by auto
  have 2: "(case ex of [] \<Rightarrow> ([], ex)
            | c # t \<Rightarrow> if c = unit_of CHR ''.''
                       then (takeWhile ?P t, dropWhile ?P t) else ([], ex)) = ([], ex)"
    using exponent_tail(2)[OF ex] by (cases ex) auto
  show ?thesis
    unfolding unsigned_decimal_literal_def Let_def 1 2
    using ne by (simp add: e)
qed

lemma decimal_not_Infinity:
  assumes "c # t = ascii ''Infinity''"
  shows "\<not> decimal_digit c" and "c \<noteq> unit_of CHR ''.''"
  using assms by (simp_all add: ascii_def unit_of_def decimal_digit_def)

lemma unsigned_decimal_form_parse:
  assumes "unsigned_decimal_form u"
  shows "unsigned_decimal_literal u \<noteq> Not_A_Literal"
proof (cases "u = ascii ''Infinity''")
  case True
  then show ?thesis by (simp add: unsigned_decimal_literal_def)
next
  case False
  then obtain ip fp ex where ex: "ex = [] \<or> exponent_part_form ex"
    and forms: "decimal_digits ip \<and> (\<forall>c\<in>set fp. decimal_digit c) \<and> u = ip @ ascii ''.'' @ fp @ ex \<or>
         ip = [] \<and> decimal_digits fp \<and> u = ascii ''.'' @ fp @ ex \<or>
         decimal_digits ip \<and> fp = [] \<and> u = ip @ ex"
    using assms unfolding unsigned_decimal_form_def by blast
  have dot: "ascii ''.'' = [unit_of CHR ''.'']"
    by (simp add: ascii_def)
  from forms show ?thesis
  proof (elim disjE conjE)
    assume a: "decimal_digits ip" "\<forall>c\<in>set fp. decimal_digit c" "u = ip @ ascii ''.'' @ fp @ ex"
    then have "\<forall>c\<in>set ip. decimal_digit c" "ip \<noteq> [] \<or> fp \<noteq> []"
      by (simp_all add: decimal_digits_def digits_def)
    then show ?thesis
      using unsigned_with_fraction[of ip fp ex] a(2,3) ex False by (simp add: dot)
  next
    assume a: "ip = []" "decimal_digits fp" "u = ascii ''.'' @ fp @ ex"
    then have "\<forall>c\<in>set fp. decimal_digit c" "[] \<noteq> [] \<or> fp \<noteq> []"
      by (simp_all add: decimal_digits_def digits_def)
    then show ?thesis
      using unsigned_with_fraction[of "[]" fp ex] a(3) ex False by (simp add: dot)
  next
    assume a: "decimal_digits ip" "fp = []" "u = ip @ ex"
    then show ?thesis
      using unsigned_without_fraction[OF a(1) ex] by simp
  qed
qed

lemma unsigned_decimal_literal_form:
  assumes lit: "unsigned_decimal_literal u \<noteq> Not_A_Literal"
  shows "unsigned_decimal_form u"
proof (cases "u = ascii ''Infinity''")
  case True
  then show ?thesis by (simp add: unsigned_decimal_form_def)
next
  case False
  let ?P = "is_digit_of 10"
  define ip where "ip = takeWhile ?P u"
  define r1 where "r1 = dropWhile ?P u"
  have u: "u = ip @ r1" by (simp add: ip_def r1_def)
  have ip: "\<forall>c\<in>set ip. decimal_digit c"
    by (auto simp: ip_def is_digit_of_10_iff[symmetric] dest: set_takeWhileD)
  have dot: "ascii ''.'' = [unit_of CHR ''.'']"
    by (simp add: ascii_def)
  show ?thesis
  proof (cases r1)
    case Nil
    have "ip \<noteq> []"
      using lit False
      by (auto simp: unsigned_decimal_literal_def Let_def ip_def[symmetric] r1_def[symmetric] Nil
          split: if_splits)
    then have "decimal_digits ip \<and> u = ip @ []"
      using ip u by (simp add: decimal_digits_def digits_def Nil)
    then show ?thesis
      unfolding unsigned_decimal_form_def by blast
  next
    case (Cons c t)
    show ?thesis
    proof (cases "c = unit_of CHR ''.''")
      case True
      define fp where "fp = takeWhile ?P t"
      define r2 where "r2 = dropWhile ?P t"
      have t: "t = fp @ r2" by (simp add: fp_def r2_def)
      have fp: "\<forall>c\<in>set fp. decimal_digit c"
        by (auto simp: fp_def is_digit_of_10_iff[symmetric] dest: set_takeWhileD)
      have "(ip \<noteq> [] \<or> fp \<noteq> []) \<and> exponent_part r2 \<noteq> None"
        using lit False True
        by (auto simp: unsigned_decimal_literal_def Let_def ip_def[symmetric] r1_def[symmetric]
            Cons fp_def[symmetric] r2_def[symmetric] split: if_splits option.splits)
      then have ne: "ip \<noteq> [] \<or> fp \<noteq> []" and ex: "r2 = [] \<or> exponent_part_form r2"
        using exponent_part_iff[of r2] by auto
      have eq: "u = ip @ ascii ''.'' @ fp @ r2"
        by (simp add: u Cons True t dot)
      show ?thesis
      proof (cases "ip = []")
        case True
        then have "decimal_digits fp \<and> u = ascii ''.'' @ fp @ r2"
          using ne fp eq by (simp add: decimal_digits_def digits_def)
        then show ?thesis
          unfolding unsigned_decimal_form_def using ex True by blast
      next
        case False
        then have "decimal_digits ip"
          using ip by (simp add: decimal_digits_def digits_def)
        then show ?thesis
          unfolding unsigned_decimal_form_def using ex fp eq by blast
      qed
    next
      case nodot: False
      have "ip \<noteq> [] \<and> exponent_part r1 \<noteq> None"
        using lit False nodot
        by (auto simp: unsigned_decimal_literal_def Let_def ip_def[symmetric] r1_def[symmetric]
            Cons split: if_splits option.splits)
      then have "decimal_digits ip" and "r1 = [] \<or> exponent_part_form r1"
        using ip exponent_part_iff[of r1] by (auto simp: decimal_digits_def digits_def)
      then show ?thesis
        unfolding unsigned_decimal_form_def using u by blast
    qed
  qed
qed

lemma unsigned_decimal_iff:
  "unsigned_decimal_literal u \<noteq> Not_A_Literal \<longleftrightarrow> unsigned_decimal_form u"
  using unsigned_decimal_literal_form unsigned_decimal_form_parse by blast

lemma non_decimal_iff: "(\<exists>n. non_decimal_literal s = Some n) \<longleftrightarrow> non_decimal_form s"
proof (cases s)
  case Nil
  then show ?thesis by (simp add: non_decimal_form_def)
next
  case (Cons z t)
  show ?thesis
  proof (cases t)
    case Nil
    then show ?thesis by (simp add: Cons non_decimal_form_def)
  next
    case (Cons p ds)
    have s: "s = z # p # ds" by (simp add: \<open>s = z # t\<close> Cons)
    have d: "ds \<noteq> [] \<and> list_all (is_digit_of 16) ds \<longleftrightarrow> digits hex_digit ds"
        "ds \<noteq> [] \<and> list_all (is_digit_of 8) ds \<longleftrightarrow> digits octal_digit ds"
        "ds \<noteq> [] \<and> list_all (is_digit_of 2) ds \<longleftrightarrow> digits binary_digit ds"
      by (simp_all add: digits_def list_all_iff is_digit_of_16_iff is_digit_of_8_iff
            is_digit_of_2_iff)
    have "(\<exists>n. non_decimal_literal (z # p # ds) = Some n) \<longleftrightarrow>
        z = unit_of CHR ''0'' \<and>
        ((p = unit_of CHR ''x'' \<or> p = unit_of CHR ''X'') \<and> digits hex_digit ds \<or>
         (p = unit_of CHR ''o'' \<or> p = unit_of CHR ''O'') \<and> digits octal_digit ds \<or>
         (p = unit_of CHR ''b'' \<or> p = unit_of CHR ''B'') \<and> digits binary_digit ds)"
      unfolding d[symmetric]
      by (simp add: radix_of_prefix_def unit_of_def)
    then show ?thesis
      unfolding s non_decimal_form_def by auto
  qed
qed

text \<open>No character of a literal is white space, so trimming stops at the literal.\<close>

lemma sign_chars: "sign sg \<Longrightarrow> \<forall>c\<in>set sg. \<not> white_space c"
  by (auto simp: sign_def ascii_def unit_of_def white_space_def)

lemma decimal_digits_chars: "decimal_digits ds \<Longrightarrow> \<forall>c\<in>set ds. \<not> white_space c"
  by (auto simp: decimal_digits_def digits_def dest: decimal_digit_facts(9))

lemma exponent_part_form_chars:
  assumes "ex = [] \<or> exponent_part_form ex"
  shows "\<forall>c\<in>set ex. \<not> white_space c"
proof (cases "ex = []")
  case True
  then show ?thesis by simp
next
  case False
  then obtain i sg ds where ex: "ex = i # sg @ ds"
    and i: "i = unit_of CHR ''e'' \<or> i = unit_of CHR ''E''" and sg: "sign sg"
    and ds: "decimal_digits ds"
    using assms unfolding exponent_part_form_def by blast
  have "\<not> white_space i"
    using i by (auto simp: unit_of_def white_space_def)
  then show ?thesis
    using sign_chars[OF sg] decimal_digits_chars[OF ds] by (auto simp: ex)
qed

lemma unsigned_decimal_form_chars:
  assumes "unsigned_decimal_form u"
  shows "u \<noteq> [] \<and> (\<forall>c\<in>set u. \<not> white_space c)"
proof (cases "u = ascii ''Infinity''")
  case True
  then show ?thesis by (simp add: ascii_def unit_of_def white_space_def)
next
  case False
  then obtain ip fp ex where ex: "ex = [] \<or> exponent_part_form ex"
    and forms: "decimal_digits ip \<and> (\<forall>c\<in>set fp. decimal_digit c) \<and> u = ip @ ascii ''.'' @ fp @ ex \<or>
         ip = [] \<and> decimal_digits fp \<and> u = ascii ''.'' @ fp @ ex \<or>
         decimal_digits ip \<and> fp = [] \<and> u = ip @ ex"
    using assms unfolding unsigned_decimal_form_def by blast
  have dot: "\<forall>c\<in>set (ascii ''.''). \<not> white_space c" "ascii ''.'' \<noteq> []"
    by (simp_all add: ascii_def unit_of_def white_space_def)
  have exc: "\<forall>c\<in>set ex. \<not> white_space c"
    using exponent_part_form_chars[OF ex] .
  from forms show ?thesis
  proof (elim disjE conjE)
    assume a: "decimal_digits ip" "\<forall>c\<in>set fp. decimal_digit c" "u = ip @ ascii ''.'' @ fp @ ex"
    have "\<forall>c\<in>set fp. \<not> white_space c"
      using a(2) decimal_digit_facts(9) by blast
    then show ?thesis
      using decimal_digits_chars[OF a(1)] dot exc by (auto simp: a(3))
  next
    assume a: "ip = []" "decimal_digits fp" "u = ascii ''.'' @ fp @ ex"
    show ?thesis
      using decimal_digits_chars[OF a(2)] dot exc by (auto simp: a(3))
  next
    assume a: "decimal_digits ip" "fp = []" "u = ip @ ex"
    have "ip \<noteq> []" using a(1) by (simp add: decimal_digits_def digits_def)
    then show ?thesis
      using decimal_digits_chars[OF a(1)] exc by (auto simp: a(3))
  qed
qed

lemma non_decimal_form_chars:
  assumes "non_decimal_form s"
  shows "s \<noteq> [] \<and> (\<forall>c\<in>set s. \<not> white_space c)"
proof -
  obtain p ds where s: "s = unit_of CHR ''0'' # p # ds"
    and p: "p = unit_of CHR ''x'' \<or> p = unit_of CHR ''X'' \<or> p = unit_of CHR ''o'' \<or>
            p = unit_of CHR ''O'' \<or> p = unit_of CHR ''b'' \<or> p = unit_of CHR ''B''"
    and ds: "digits hex_digit ds \<or> digits octal_digit ds \<or> digits binary_digit ds"
    using assms unfolding non_decimal_form_def by blast
  have "\<forall>c\<in>set ds. hex_digit c"
    using ds octal_digit_hex binary_digit_hex by (auto simp: digits_def)
  then have "\<forall>c\<in>set ds. \<not> white_space c"
    using hex_digit_not_white by blast
  moreover have "\<not> white_space (unit_of CHR ''0'')" "\<not> white_space p"
    using p by (auto simp: unit_of_def white_space_def)
  ultimately show ?thesis by (simp add: s)
qed

lemma str_numeric_literal_chars:
  assumes "str_numeric_literal b"
  shows "b \<noteq> [] \<and> (\<forall>c\<in>set b. \<not> white_space c)"
  using assms non_decimal_form_chars unsigned_decimal_form_chars sign_chars
  unfolding str_numeric_literal_def by fastforce

lemma round_double_not_NaN: "round_double q \<noteq> NaN"
  by (simp add: round_double_def Let_def)

lemma unsigned_decimal_form_hd:
  assumes "unsigned_decimal_form u"
  shows "\<exists>c t. u = c # t \<and> c \<noteq> unit_of CHR ''-'' \<and> c \<noteq> unit_of CHR ''+''"
proof (cases "u = ascii ''Infinity''")
  case True
  then show ?thesis by (simp add: ascii_def unit_of_def)
next
  case False
  then obtain ip fp ex where
    forms: "decimal_digits ip \<and> (\<forall>c\<in>set fp. decimal_digit c) \<and> u = ip @ ascii ''.'' @ fp @ ex \<or>
         ip = [] \<and> decimal_digits fp \<and> u = ascii ''.'' @ fp @ ex \<or>
         decimal_digits ip \<and> fp = [] \<and> u = ip @ ex"
    using assms unfolding unsigned_decimal_form_def by blast
  have dot: "ascii ''.'' = [unit_of CHR ''.'']" "unit_of CHR ''.'' \<noteq> unit_of CHR ''-''"
      "unit_of CHR ''.'' \<noteq> unit_of CHR ''+''"
    by (simp_all add: ascii_def unit_of_def)
  from forms show ?thesis
  proof (elim disjE conjE)
    assume a: "decimal_digits ip" "u = ip @ ascii ''.'' @ fp @ ex"
    obtain c t where "ip = c # t" "decimal_digit c"
      using decimal_digits_hd[OF a(1)] by auto
    then show ?thesis
      using decimal_digit_facts(1,2)[of c] by (simp add: a(2))
  next
    assume a: "u = ascii ''.'' @ fp @ ex"
    show ?thesis using dot by (simp add: a)
  next
    assume a: "decimal_digits ip" "u = ip @ ex"
    obtain c t where "ip = c # t" "decimal_digit c"
      using decimal_digits_hd[OF a(1)] by auto
    then show ?thesis
      using decimal_digit_facts(1,2)[of c] by (simp add: a(2))
  qed
qed

lemma string_to_number_decimal:
  assumes t: "trim s = t" "t \<noteq> []" and nd: "non_decimal_literal t = None"
  shows "string_to_number s \<noteq> NaN \<longleftrightarrow>
           (\<exists>sg u. t = sg @ u \<and> sign sg \<and> unsigned_decimal_form u)"
proof -
  obtain c r where cr: "t = c # r" using t(2) by (cases t) auto
  show ?thesis
  proof (cases "c = unit_of CHR ''-'' \<or> c = unit_of CHR ''+''")
    case True
    have "string_to_number s \<noteq> NaN \<longleftrightarrow> unsigned_decimal_literal r \<noteq> Not_A_Literal"
      unfolding string_to_number_def t(1) Let_def
      using True nd round_double_not_NaN
      by (auto simp: cr simp del: non_decimal_literal.simps split: literal_value.splits)
    also have "\<dots> \<longleftrightarrow> unsigned_decimal_form r"
      by (rule unsigned_decimal_iff)
    also have "\<dots> \<longleftrightarrow> (\<exists>sg u. t = sg @ u \<and> sign sg \<and> unsigned_decimal_form u)"
    proof
      assume f: "unsigned_decimal_form r"
      have "sign [c]" using True by (auto simp: sign_def ascii_def)
      moreover have "t = [c] @ r" by (simp add: cr)
      ultimately show "\<exists>sg u. t = sg @ u \<and> sign sg \<and> unsigned_decimal_form u"
        using f by blast
    next
      assume "\<exists>sg u. t = sg @ u \<and> sign sg \<and> unsigned_decimal_form u"
      then obtain sg u where su: "t = sg @ u" "sign sg" "unsigned_decimal_form u" by blast
      have "sg \<noteq> []"
        using unsigned_decimal_form_hd[OF su(3)] su(1) True by (auto simp: cr)
      then have "sg = [c]" "u = r"
        using su(1,2) by (auto simp: sign_def ascii_def cr)
      then show "unsigned_decimal_form r" using su(3) by simp
    qed
    finally show ?thesis .
  next
    case False
    have "string_to_number s \<noteq> NaN \<longleftrightarrow> unsigned_decimal_literal t \<noteq> Not_A_Literal"
      unfolding string_to_number_def t(1) Let_def
      using False nd round_double_not_NaN
      by (auto simp: cr simp del: non_decimal_literal.simps split: literal_value.splits)
    also have "\<dots> \<longleftrightarrow> unsigned_decimal_form t"
      by (rule unsigned_decimal_iff)
    also have "\<dots> \<longleftrightarrow> (\<exists>sg u. t = sg @ u \<and> sign sg \<and> unsigned_decimal_form u)"
    proof
      assume f: "unsigned_decimal_form t"
      have "sign []" by (simp add: sign_def)
      moreover have "t = [] @ t" by simp
      ultimately show "\<exists>sg u. t = sg @ u \<and> sign sg \<and> unsigned_decimal_form u"
        using f by blast
    next
      assume "\<exists>sg u. t = sg @ u \<and> sign sg \<and> unsigned_decimal_form u"
      then obtain sg u where su: "t = sg @ u" "sign sg" "unsigned_decimal_form u" by blast
      have "sg = []"
        using su(1,2) False by (auto simp: sign_def ascii_def cr)
      then show "unsigned_decimal_form t" using su by simp
    qed
    finally show ?thesis .
  qed
qed

lemma string_numeric_literal_trim:
  "string_numeric_literal s \<longleftrightarrow> trim s = [] \<or> str_numeric_literal (trim s)"
proof
  assume "string_numeric_literal s"
  then obtain w1 b w2 where s: "s = w1 @ b @ w2" and w1: "\<forall>c\<in>set w1. white_space c"
    and w2: "\<forall>c\<in>set w2. white_space c" and b: "b = [] \<or> str_numeric_literal b"
    unfolding string_numeric_literal_def by blast
  show "trim s = [] \<or> str_numeric_literal (trim s)"
  proof (cases "b = []")
    case True
    then have "\<forall>c\<in>set s. white_space c" using w1 w2 by (auto simp: s)
    then show ?thesis by (simp add: trim_white)
  next
    case False
    then have lit: "str_numeric_literal b" using b by simp
    have "\<forall>c\<in>set b. \<not> white_space c"
      using str_numeric_literal_chars[OF lit] by simp
    then have "\<not> white_space (hd b)" "\<not> white_space (last b)"
      using False by simp_all
    then have "trim s = b"
      unfolding s using trim_around[OF w1 w2 False] by simp
    then show ?thesis using lit by simp
  qed
next
  assume "trim s = [] \<or> str_numeric_literal (trim s)"
  then show "string_numeric_literal s"
    unfolding string_numeric_literal_def using trim_decomposition[of s] by blast
qed

text \<open>A string converts to \<open>NaN\<close> exactly when it is not a numeric string of the
  grammar.\<close>

lemma string_to_number_NaN_iff: "string_to_number s = NaN \<longleftrightarrow> \<not> string_numeric_literal s"
proof (cases "trim s = []")
  case True
  then show ?thesis
    by (simp add: string_numeric_literal_trim string_to_number_def)
next
  case False
  show ?thesis
  proof (cases "non_decimal_literal (trim s)")
    case None
    have "\<not> non_decimal_form (trim s)"
      using None non_decimal_iff[of "trim s"] by simp
    then have "string_numeric_literal s \<longleftrightarrow>
        (\<exists>sg u. trim s = sg @ u \<and> sign sg \<and> unsigned_decimal_form u)"
      using False by (simp add: string_numeric_literal_trim str_numeric_literal_def)
    then show ?thesis
      using string_to_number_decimal[OF refl False None] by blast
  next
    case (Some n)
    then have "non_decimal_form (trim s)"
      using non_decimal_iff[of "trim s"] by blast
    moreover have "string_to_number s \<noteq> NaN"
      using False Some round_double_not_NaN by (simp add: string_to_number_def)
    ultimately show ?thesis
      by (simp add: string_numeric_literal_trim str_numeric_literal_def)
  qed
qed

lemma string_to_number_white: "(\<forall>c\<in>set s. white_space c) \<Longrightarrow> string_to_number s = Finite 0"
  by (simp add: string_to_number_def trim_white)

subsection \<open>Strings of decimal digits\<close>

text \<open>A non-empty run of decimal digits is converted to the double nearest to the number
  it writes: nothing is trimmed, it has no radix prefix, no sign, no fraction and no
  exponent.\<close>

lemma digits_value_written:
  "\<forall>c\<in>set ds. decimal_digit c \<Longrightarrow>
     foldl (\<lambda>acc c. 10 * acc + (case digit_value c of None \<Rightarrow> 0 | Some d \<Rightarrow> d)) a ds =
     foldl (\<lambda>n c. 10 * n + (c - 0x30)) a ds"
  by (induction ds arbitrary: a) (simp_all add: digit_value_decimal)

lemma decimal_digits_value: "decimal_digits ds \<Longrightarrow> digits_value 10 ds = written_number ds"
  by (simp add: decimal_digits_def digits_def digits_value_def written_number_def
        digits_value_written)

lemma decimal_digits_trim: "decimal_digits ds \<Longrightarrow> trim ds = ds"
  using trim_around[of "[]" "[]" ds] decimal_digits_chars[of ds]
  by (simp add: decimal_digits_def digits_def)

lemma decimal_digits_non_decimal: "decimal_digits ds \<Longrightarrow> non_decimal_literal ds = None"
proof (cases "\<exists>z p rest. ds = z # p # rest")
  case True
  then obtain z p rest where ds: "ds = z # p # rest" by blast
  assume "decimal_digits ds"
  then have "decimal_digit p"
    by (simp add: ds decimal_digits_def digits_def)
  then have "radix_of_prefix p = None"
    by (rule decimal_digit_facts(8))
  then show ?thesis by (simp add: ds)
next
  case False
  then show ?thesis
    by (cases ds rule: non_decimal_literal.cases) simp_all
qed

lemma decimal_digits_unsigned:
  assumes d: "decimal_digits ds"
  shows "unsigned_decimal_literal ds = Rational_Literal (of_nat (written_number ds))"
proof -
  have all: "\<forall>c\<in>set ds. is_digit_of 10 c" and ne: "ds \<noteq> []"
    using d by (simp_all add: decimal_digits_def digits_def is_digit_of_10_iff)
  obtain c t where "ds = c # t" "decimal_digit c"
    using decimal_digits_hd[OF d] by auto
  then have inf: "ds \<noteq> ascii ''Infinity''"
    using decimal_not_Infinity(1)[of c t] by auto
  have tk: "takeWhile (is_digit_of 10) ds = ds" and dr: "dropWhile (is_digit_of 10) ds = []"
    using all by simp_all
  show ?thesis
    unfolding unsigned_decimal_literal_def tk dr
    using ne inf by (simp add: exponent_part_def scale10_def decimal_digits_value[OF d])
qed

lemma string_to_number_decimal_digits:
  assumes d: "decimal_digits ds"
  shows "string_to_number ds = round_double (of_nat (written_number ds))"
proof -
  obtain c t where ds: "ds = c # t" and c: "decimal_digit c"
    using decimal_digits_hd[OF d] by auto
  have sg: "c \<noteq> unit_of CHR ''-''" "c \<noteq> unit_of CHR ''+''"
    using decimal_digit_facts(1,2)[OF c] .
  have tr: "trim (c # t) = c # t"
    using decimal_digits_trim[OF d] by (simp add: ds)
  have ndl: "non_decimal_literal (c # t) = None"
    using decimal_digits_non_decimal[OF d] by (simp add: ds)
  have udl: "unsigned_decimal_literal (c # t) =
      Rational_Literal (of_nat (written_number (c # t)))"
    using decimal_digits_unsigned[OF d] by (simp add: ds)
  show ?thesis
    unfolding string_to_number_def ds tr
    by (simp add: ndl udl sg del: non_decimal_literal.simps)
qed

subsection \<open>Rounding to a double\<close>

lemma pow2_powi: "pow2 n = 2 powi n"
proof (cases "0 \<le> n")
  case True
  then show ?thesis unfolding pow2_def power_int_def by simp
next
  case False
  have "(1::rat) / 2 ^ nat (- n) = inverse 2 ^ nat (- n)"
    by (simp add: power_divide inverse_eq_divide)
  then show ?thesis unfolding pow2_def power_int_def using False by simp
qed

text \<open>\<open>round_half_even\<close> yields an integer nearest to its argument.\<close>

lemma round_half_even_cases:
  "round_half_even q = \<lfloor>q\<rfloor> \<and> q - of_int \<lfloor>q\<rfloor> \<le> 1 / 2 \<or>
   round_half_even q = \<lfloor>q\<rfloor> + 1 \<and> 1 / 2 \<le> q - of_int \<lfloor>q\<rfloor>"
  by (auto simp: round_half_even_def Let_def)

lemma round_half_even_nearest:
  "\<bar>q - of_int (round_half_even q)\<bar> \<le> \<bar>q - of_int j\<bar>"
proof -
  define f where "f = \<lfloor>q\<rfloor>"
  have fl: "of_int f \<le> q" "q < of_int f + 1"
    by (simp_all add: f_def) linarith
  have j: "j \<le> f \<or> f + 1 \<le> j" by linarith
  then have jq: "of_int j \<le> (of_int f :: rat) \<or> (of_int f :: rat) + 1 \<le> of_int j"
    by (metis of_int_le_iff of_int_add of_int_1)
  from round_half_even_cases[of q] show ?thesis
  proof
    assume a: "round_half_even q = \<lfloor>q\<rfloor> \<and> q - of_int \<lfloor>q\<rfloor> \<le> 1 / 2"
    then have "round_half_even q = f" "q - of_int f \<le> 1 / 2"
      by (simp_all add: f_def)
    then show ?thesis using fl jq by (simp only:) linarith
  next
    assume a: "round_half_even q = \<lfloor>q\<rfloor> + 1 \<and> 1 / 2 \<le> q - of_int \<lfloor>q\<rfloor>"
    then have "round_half_even q = f + 1" "1 / 2 \<le> q - of_int f"
      by (simp_all add: f_def)
    then show ?thesis using fl jq by (simp only: of_int_add of_int_1) linarith
  qed
qed

lemma round_half_even_close: "\<bar>q - of_int (round_half_even q)\<bar> \<le> 1 / 2"
proof -
  have fl: "of_int \<lfloor>q\<rfloor> \<le> q" "q < of_int \<lfloor>q\<rfloor> + 1"
    by simp_all linarith
  from round_half_even_cases[of q] show ?thesis
  proof
    assume "round_half_even q = \<lfloor>q\<rfloor> \<and> q - of_int \<lfloor>q\<rfloor> \<le> 1 / 2"
    then show ?thesis using fl by (simp only:) linarith
  next
    assume "round_half_even q = \<lfloor>q\<rfloor> + 1 \<and> 1 / 2 \<le> q - of_int \<lfloor>q\<rfloor>"
    then show ?thesis using fl by (simp only: of_int_add of_int_1) linarith
  qed
qed

lemma round_half_even_of_int: "round_half_even (of_int k) = k"
  by (simp add: round_half_even_def)

lemma round_half_even_between:
  assumes "of_int lo \<le> q" and "q \<le> of_int hi"
  shows "lo \<le> round_half_even q" and "round_half_even q \<le> hi"
proof -
  have lo: "lo \<le> \<lfloor>q\<rfloor>" using assms(1) by (simp add: le_floor_iff)
  show "lo \<le> round_half_even q"
    using round_half_even_cases[of q] lo by auto
  show "round_half_even q \<le> hi"
  proof (cases "q = of_int hi")
    case True
    then show ?thesis by (simp add: round_half_even_of_int)
  next
    case False
    then have "q < of_int hi" using assms(2) by simp
    then have "\<lfloor>q\<rfloor> < hi" by (simp add: floor_less_iff)
    then show ?thesis using round_half_even_cases[of q] by auto
  qed
qed

text \<open>The binade of a positive natural number.\<close>

lemma floor_log2_of_nat:
  assumes "0 < n"
  shows "0 \<le> floor_log2 (of_nat n)"
    and "2 ^ nat (floor_log2 (of_nat n)) \<le> n"
    and "n < 2 ^ Suc (nat (floor_log2 (of_nat n)))"
proof -
  have fl: "floor_log2 (of_nat n) = int (floorlog 2 n) - 1"
    using assms by (simp add: floor_log2_def)
  have pos: "0 < floorlog 2 n"
    using assms floorlog_eq_zero_iff[of 2 n] by simp
  have b: "2 ^ (floorlog 2 n - 1) \<le> n \<and> n < 2 ^ floorlog 2 n"
    using floorlog_bounds[of n 2] assms by simp
  have eq: "nat (floor_log2 (of_nat n)) = floorlog 2 n - 1"
    using pos by (simp add: fl)
  show "0 \<le> floor_log2 (of_nat n)" using pos by (simp add: fl)
  show "2 ^ nat (floor_log2 (of_nat n)) \<le> n" using b by (simp add: eq)
  show "n < 2 ^ Suc (nat (floor_log2 (of_nat n)))" using b pos by (simp add: eq)
qed

text \<open>The steps of \<open>round_double\<close> on a positive natural number \<open>n\<close>: its binade \<open>e\<close>, the
  spacing \<open>ulp\<close> of the doubles of that binade and the significand \<open>k\<close>.\<close>

lemma abs_scaled:
  fixes u :: rat
  assumes "0 < u"
  shows "\<bar>a * u - b * u\<bar> = \<bar>b - a\<bar> * u"
proof -
  have "a * u - b * u = (a - b) * u" by (simp add: left_diff_distrib)
  then show ?thesis using assms by (simp add: abs_mult abs_minus_commute)
qed

lemma round_double_of_nat_steps:
  fixes n :: nat
  defines "e \<equiv> floor_log2 (of_nat n)"
  defines "ulp \<equiv> (2::rat) powi (e - 52)"
  defines "k \<equiv> round_half_even (of_nat n / ulp)"
  assumes n: "0 < n"
  shows "round_double (of_nat n) =
           (if 2 powi 1024 \<le> of_int k * ulp then PosInfinity else Finite (of_int k * ulp))"
    and "0 \<le> e"
    and "2 powi e \<le> (of_nat n :: rat)"
    and "(of_nat n :: rat) < 2 powi (e + 1)"
    and "2 ^ 52 \<le> k"
    and "k \<le> 2 ^ 53"
proof -
  have e0: "0 \<le> e" unfolding e_def using floor_log2_of_nat(1)[OF n] .
  have lo_nat: "2 ^ nat e \<le> n" unfolding e_def using floor_log2_of_nat(2)[OF n] .
  have hi_nat: "n < 2 ^ Suc (nat e)" unfolding e_def using floor_log2_of_nat(3)[OF n] .
  have "(of_nat (2 ^ nat e) :: rat) \<le> of_nat n" using lo_nat by (simp only: of_nat_le_iff)
  then have lo: "2 powi e \<le> (of_nat n :: rat)"
    using e0 by (simp add: power_int_nonneg_exp)
  have "(of_nat n :: rat) < of_nat (2 ^ Suc (nat e))" using hi_nat by (simp only: of_nat_less_iff)
  moreover have "nat (e + 1) = Suc (nat e)" using e0 by simp
  ultimately have hi: "(of_nat n :: rat) < 2 powi (e + 1)"
    using e0 by (simp add: power_int_nonneg_exp)
  have ulp_pos: "0 < ulp" unfolding ulp_def by simp
  have "(2::rat) powi e = 2 powi (52 + (e - 52))" by simp
  also have "\<dots> = 2 powi 52 * ulp" unfolding ulp_def by (rule power_int_add) simp
  finally have e52: "(2::rat) powi e = 2 ^ 52 * ulp" by simp
  have "e + 1 = 53 + (e - 52)" by simp
  then have "(2::rat) powi (e + 1) = 2 powi (53 + (e - 52))" by (simp only:)
  also have "\<dots> = 2 powi 53 * ulp" unfolding ulp_def by (rule power_int_add) simp
  finally have e53: "(2::rat) powi (e + 1) = 2 ^ 53 * ulp" by simp
  have x_lo: "of_int (2 ^ 52) \<le> of_nat n / ulp"
    using lo ulp_pos by (simp add: e52 pos_le_divide_eq)
  have x_hi: "of_nat n / ulp \<le> of_int (2 ^ 53)"
    using hi ulp_pos by (simp add: e53 pos_divide_le_eq)
  show "2 ^ 52 \<le> k" unfolding k_def using round_half_even_between(1)[OF x_lo x_hi] .
  show "k \<le> 2 ^ 53" unfolding k_def using round_half_even_between(2)[OF x_lo x_hi] .
  show "0 \<le> e" by (rule e0)
  show "2 powi e \<le> (of_nat n :: rat)" by (rule lo)
  show "(of_nat n :: rat) < 2 powi (e + 1)" by (rule hi)
  have m: "max e (- 1022) = e" using e0 by simp
  have a: "\<bar>of_nat n :: rat\<bar> = of_nat n" by simp
  have nz: "(of_nat n :: rat) \<noteq> 0" "\<not> (of_nat n :: rat) < 0" using n by simp_all
  show "round_double (of_nat n) =
           (if 2 powi 1024 \<le> of_int k * ulp then PosInfinity else Finite (of_int k * ulp))"
    unfolding round_double_def Let_def a pow2_powi e_def[symmetric] m ulp_def[symmetric]
      k_def[symmetric]
    using nz by (simp only: if_False)
qed

lemma is_double_0: "is_double 0"
  unfolding is_double_def by (rule exI[of _ 0], rule exI[of _ 0]) simp

text \<open>A finite result of \<open>round_double\<close> on a natural number is a double, and no double is
  nearer to the number.\<close>

lemma round_double_of_nat_nearest:
  assumes r: "round_double (of_nat n) = Finite m"
  shows "is_double m" and "is_double d \<Longrightarrow> \<bar>m - of_nat n\<bar> \<le> \<bar>d - of_nat n\<bar>"
proof -
  have "is_double m \<and> (is_double d \<longrightarrow> \<bar>m - of_nat n\<bar> \<le> \<bar>d - of_nat n\<bar>)"
  proof (cases "n = 0")
    case True
    then have "m = 0" using r by (simp add: round_double_def)
    then show ?thesis using True is_double_0 by simp
  next
    case False
    then have n: "0 < n" by simp
    define e where "e = floor_log2 (of_nat n)"
    define ulp where "ulp = (2::rat) powi (e - 52)"
    define x where "x = (of_nat n :: rat) / ulp"
    define k where "k = round_half_even x"
    note steps = round_double_of_nat_steps[OF n, folded e_def, folded ulp_def, folded x_def,
        folded k_def]
    have ulp_pos: "0 < ulp" unfolding ulp_def by simp
    have nx: "(of_nat n :: rat) = x * ulp" unfolding x_def using ulp_pos by simp
    have m: "m = of_int k * ulp" and fin: "of_int k * ulp < (2::rat) powi 1024"
      using r steps(1) by (simp_all split: if_splits)
    have k_lo: "2 ^ 52 \<le> k" and k_hi: "k \<le> 2 ^ 53" using steps(5,6) by simp_all
    have e0: "0 \<le> e" using steps(2) .
    have e52: "(2::rat) powi e = 2 ^ 52 * ulp"
    proof -
      have "(2::rat) powi e = 2 powi (52 + (e - 52))" by simp
      also have "\<dots> = 2 powi 52 * ulp" unfolding ulp_def by (rule power_int_add) simp
      finally show ?thesis by simp
    qed
    have near: "\<bar>m - of_nat n\<bar> \<le> \<bar>of_int j * ulp - of_nat n\<bar>" for j
    proof -
      have "\<bar>m - of_nat n\<bar> = \<bar>x - of_int k\<bar> * ulp"
        unfolding m nx using ulp_pos by (rule abs_scaled)
      also have "\<dots> \<le> \<bar>x - of_int j\<bar> * ulp"
        using round_half_even_nearest[of x j] ulp_pos
        unfolding k_def by (simp add: mult_right_mono)
      also have "\<dots> = \<bar>of_int j * ulp - of_nat n\<bar>"
        unfolding nx using ulp_pos by (rule abs_scaled[symmetric])
      finally show ?thesis .
    qed
    have dbl: "is_double m"
    proof (cases "k = 2 ^ 53")
      case True
      have "m = 2 ^ 53 * ulp" unfolding m True by simp
      also have "\<dots> = 2 powi (53 + (e - 52))"
        unfolding ulp_def by (subst power_int_add) simp_all
      also have "53 + (e - 52) = e + 1" by simp
      finally have m1: "m = 2 powi (e + 1)" .
      have "(2::rat) powi (e + 1) < 2 powi 1024" using fin m m1 by simp
      then have "e + 1 < 1024"
        using power_int_increasing[of 1024 "e + 1" "2::rat"] by linarith
      then have b: "e - 51 \<le> 971" by simp
      have "e + 1 = 52 + (e - 51)" by simp
      then have "m = 2 powi (52 + (e - 51))" unfolding m1 by (simp only:)
      also have "\<dots> = 2 powi 52 * 2 powi (e - 51)" by (rule power_int_add) simp
      finally have "m = of_int (2 ^ 52) * 2 powi (e - 51)" by simp
      moreover have "\<bar>2 ^ 52 :: int\<bar> < 2 ^ 53" by simp
      moreover have "- 1074 \<le> e - 51" using e0 by simp
      ultimately show ?thesis unfolding is_double_def using b by blast
    next
      case False
      then have kb: "\<bar>k\<bar> < 2 ^ 53" using k_lo k_hi by simp
      have "(of_int (2 ^ 52) :: rat) \<le> of_int k" using k_lo by (simp only: of_int_le_iff)
      then have "of_int (2 ^ 52) * ulp \<le> of_int k * ulp"
        using ulp_pos by (intro mult_right_mono) simp_all
      then have "(2::rat) powi e \<le> m" unfolding m e52 by simp
      then have "(2::rat) powi e < 2 powi 1024" using fin m by simp
      then have "e < 1024"
        using power_int_increasing[of 1024 e "2::rat"] by linarith
      then have "e - 52 \<le> 971" "- 1074 \<le> e - 52" using e0 by simp_all
      then show ?thesis unfolding is_double_def using kb m ulp_def by blast
    qed
    have "\<bar>m - of_nat n\<bar> \<le> \<bar>d - of_nat n\<bar>" if d: "is_double d"
    proof -
      from d obtain j e' where j: "\<bar>j\<bar> < 2 ^ 53" and e': "- 1074 \<le> e'"
        and dj: "d = of_int j * 2 powi e'"
        unfolding is_double_def by blast
      show ?thesis
      proof (cases "\<bar>d\<bar> < 2 powi e")
        case True
        have "\<bar>m - of_nat n\<bar> \<le> \<bar>of_int (2 ^ 52) * ulp - of_nat n\<bar>" by (rule near)
        also have "of_int (2 ^ 52) * ulp = (2::rat) powi e" using e52 by simp
        finally have "\<bar>m - of_nat n\<bar> \<le> \<bar>2 powi e - of_nat n\<bar>" .
        then show ?thesis using True steps(3) by linarith
      next
        case False
        have "\<bar>d\<bar> = of_int \<bar>j\<bar> * 2 powi e'"
          unfolding dj by (simp add: abs_mult)
        moreover have "(of_int \<bar>j\<bar> :: rat) < of_int (2 ^ 53)"
          using j by (simp only: of_int_less_iff)
        ultimately have "\<bar>d\<bar> < 2 ^ 53 * 2 powi e'"
          by (simp add: mult_strict_right_mono)
        also have "\<dots> = 2 powi (53 + e')" by (subst power_int_add) simp_all
        finally have "(2::rat) powi e < 2 powi (53 + e')" using False by simp
        then have "e < 53 + e'"
          using power_int_increasing[of "53 + e'" e "2::rat"] by linarith
        then have g: "0 \<le> e' - (e - 52)" by simp
        have "e' = (e' - (e - 52)) + (e - 52)" by simp
        then have "(2::rat) powi e' = 2 powi ((e' - (e - 52)) + (e - 52))" by (simp only:)
        also have "\<dots> = 2 powi (e' - (e - 52)) * ulp"
          unfolding ulp_def by (rule power_int_add) simp
        also have "\<dots> = of_int (2 ^ nat (e' - (e - 52))) * ulp"
          using g by (simp add: power_int_nonneg_exp)
        finally have "d = of_int (j * 2 ^ nat (e' - (e - 52))) * ulp"
          unfolding dj by simp
        then show ?thesis by (simp only: near)
      qed
    qed
    then show ?thesis using dbl by simp
  qed
  then show "is_double m" and "is_double d \<Longrightarrow> \<bar>m - of_nat n\<bar> \<le> \<bar>d - of_nat n\<bar>"
    by simp_all
qed

text \<open>Overflow: a natural number is converted to \<open>Infinity\<close> from \<open>2^1024 - 2^970\<close> on, the
  midpoint between the largest double and \<open>2^1024\<close>, and to a finite number below.\<close>

lemma round_half_even_tie_up:
  assumes "of_int j - 1 / 2 \<le> q" and "even j"
  shows "j \<le> round_half_even q"
proof -
  have "of_int (j - 1) \<le> q" using assms(1) by simp
  then have f: "j - 1 \<le> \<lfloor>q\<rfloor>" by (simp only: le_floor_iff)
  show ?thesis
  proof (cases "j \<le> \<lfloor>q\<rfloor>")
    case True
    then show ?thesis using round_half_even_cases[of q] by auto
  next
    case False
    then have eq: "\<lfloor>q\<rfloor> = j - 1" using f by simp
    then have odd: "\<not> even \<lfloor>q\<rfloor>" using assms(2) by simp
    have "1 / 2 \<le> q - of_int \<lfloor>q\<rfloor>" using assms(1) by (simp add: eq)
    then have "round_half_even q = \<lfloor>q\<rfloor> + 1"
      using odd by (simp add: round_half_even_def Let_def)
    then show ?thesis by (simp add: eq)
  qed
qed

lemma round_double_of_nat_cases:
  "round_double (of_nat n) = PosInfinity \<or> (\<exists>m. round_double (of_nat n) = Finite m)"
proof (cases "n = 0")
  case True
  then show ?thesis by (simp add: round_double_def)
next
  case False
  then have "0 < n" by simp
  from round_double_of_nat_steps(1)[OF this] show ?thesis by (simp split: if_splits)
qed

lemma round_double_of_nat_overflow:
  "round_double (of_nat n) = PosInfinity \<longleftrightarrow> 2 ^ 1024 - 2 ^ 970 \<le> n"
proof (cases "n = 0")
  case True
  have "(2::nat) ^ 970 < 2 ^ 1024" by (rule power_strict_increasing) simp_all
  then show ?thesis using True by (simp add: round_double_def)
next
  case False
  then have n: "0 < n" by simp
  define e where "e = floor_log2 (of_nat n)"
  define ulp where "ulp = (2::rat) powi (e - 52)"
  define x where "x = (of_nat n :: rat) / ulp"
  define k where "k = round_half_even x"
  note steps = round_double_of_nat_steps[OF n, folded e_def, folded ulp_def, folded x_def,
      folded k_def]
  have ulp_pos: "0 < ulp" unfolding ulp_def by simp
  have nx: "(of_nat n :: rat) = x * ulp" unfolding x_def using ulp_pos by simp
  have inf: "round_double (of_nat n) = PosInfinity \<longleftrightarrow> 2 powi 1024 \<le> of_int k * ulp"
    using steps(1) by simp
  define a where "a = (2::rat) powi 970"
  have a_pos: "0 < a" unfolding a_def by simp
  have p971: "(2::rat) powi 971 = 2 * a"
    and p972: "(2::rat) powi 972 = 4 * a"
    and p1023: "(2::rat) powi 1023 = 9007199254740992 * a"
    and p1024: "(2::rat) powi 1024 = 18014398509481984 * a"
    unfolding a_def by simp_all
  have "(2::nat) ^ 970 \<le> 2 ^ 1024" by (rule power_increasing) simp_all
  then have "(of_nat (2 ^ 1024 - 2 ^ 970) :: rat) = 2 powi 1024 - a"
    unfolding a_def by (simp add: of_nat_diff)
  then have bound: "2 ^ 1024 - 2 ^ 970 \<le> n \<longleftrightarrow> (2::rat) powi 1024 - a \<le> of_nat n"
    by (metis of_nat_le_iff)
  have dist: "\<bar>of_int k * ulp - of_nat n\<bar> \<le> ulp / 2"
  proof -
    have "\<bar>of_int k * ulp - of_nat n\<bar> = \<bar>x - of_int k\<bar> * ulp"
      unfolding nx using ulp_pos by (rule abs_scaled)
    also have "\<dots> \<le> (1 / 2) * ulp"
      using round_half_even_close[of x] ulp_pos unfolding k_def
      by (intro mult_right_mono) simp_all
    finally show ?thesis by simp
  qed
  show ?thesis
  proof (cases "e \<le> 1022")
    case True
    then have "e + 1 \<le> 1023" by simp
    then have "(2::rat) powi (e + 1) \<le> 2 powi 1023"
      by (intro power_int_increasing) simp_all
    then have below: "(of_nat n :: rat) < 2 powi 1023" using steps(4) by simp
    have "e - 52 \<le> 970" using True by simp
    then have u: "ulp \<le> a" unfolding ulp_def a_def
      by (intro power_int_increasing) simp_all
    have "of_int k * ulp < (2::rat) powi 1024"
      using dist below u a_pos unfolding p1023 p1024 by linarith
    moreover have "\<not> (2::rat) powi 1024 - a \<le> of_nat n"
      using below a_pos unfolding p1023 p1024 by linarith
    ultimately show ?thesis unfolding inf bound by simp
  next
    case False
    show ?thesis
    proof (cases "e = 1023")
      case True
      then have u: "ulp = 2 * a" unfolding ulp_def p971[symmetric] by simp
      show ?thesis
      proof
        assume "round_double (of_nat n) = PosInfinity"
        then have "2 powi 1024 \<le> of_int k * ulp" unfolding inf .
        then have "(2::rat) powi 1024 - a \<le> of_nat n"
          using dist unfolding u by linarith
        then show "2 ^ 1024 - 2 ^ 970 \<le> n" unfolding bound .
      next
        assume "2 ^ 1024 - 2 ^ 970 \<le> n"
        then have "(2::rat) powi 1024 - a \<le> x * ulp" unfolding bound nx .
        moreover have "(of_int (2 ^ 53) - 1 / 2) * ulp = 2 powi 1024 - a"
          unfolding u p1024 by (simp add: algebra_simps)
        ultimately have "(of_int (2 ^ 53) - 1 / 2) * ulp \<le> x * ulp" by simp
        then have "of_int (2 ^ 53) - 1 / 2 \<le> x"
          using ulp_pos by (rule mult_right_le_imp_le)
        then have "2 ^ 53 \<le> k"
          unfolding k_def by (rule round_half_even_tie_up) simp
        then have "(of_int (2 ^ 53) :: rat) \<le> of_int k" by (simp only: of_int_le_iff)
        then have "of_int (2 ^ 53) * ulp \<le> of_int k * ulp"
          using ulp_pos by (intro mult_right_mono) simp_all
        then have "2 powi 1024 \<le> of_int k * ulp" unfolding u p1024 by simp
        then show "round_double (of_nat n) = PosInfinity" unfolding inf .
      qed
    next
      case False
      then have e: "1024 \<le> e" using \<open>\<not> e \<le> 1022\<close> by simp
      then have "(2::rat) powi 1024 \<le> 2 powi e"
        by (intro power_int_increasing) simp_all
      then have big: "(2::rat) powi 1024 \<le> of_nat n" using steps(3) by simp
      have "972 \<le> e - 52" using e by simp
      then have u: "(2::rat) powi 972 \<le> ulp" unfolding ulp_def
        by (intro power_int_increasing) simp_all
      have "(of_int (2 ^ 52) :: rat) \<le> of_int k" using steps(5) by (simp only: of_int_le_iff)
      then have "of_int (2 ^ 52) * 2 powi 972 \<le> of_int k * ulp"
        using u by (intro mult_mono) simp_all
      then have "2 powi 1024 \<le> of_int k * ulp" unfolding p972 p1024 by simp
      moreover have "(2::rat) powi 1024 - a \<le> of_nat n"
        using big a_pos by linarith
      ultimately show ?thesis unfolding inf bound by simp
    qed
  qed
qed

text \<open>Natural numbers up to \<open>2^53\<close> are doubles, so they are converted exactly.\<close>

lemma is_double_of_nat:
  assumes "n \<le> 2 ^ 53"
  shows "is_double (of_nat n)"
proof (cases "n = 2 ^ 53")
  case True
  have "\<bar>2 ^ 52 :: int\<bar> < 2 ^ 53 \<and> - 1074 \<le> (1::int) \<and> (1::int) \<le> 971 \<and>
      (of_nat n :: rat) = of_int (2 ^ 52) * 2 powi 1"
    by (simp add: True)
  then show ?thesis unfolding is_double_def by blast
next
  case False
  then have "n < 2 ^ 53" using assms by simp
  then have "int n < 2 ^ 53" by (metis of_nat_less_iff of_nat_numeral of_nat_power)
  then have "\<bar>int n\<bar> < 2 ^ 53 \<and> - 1074 \<le> (0::int) \<and> (0::int) \<le> 971 \<and>
      (of_nat n :: rat) = of_int (int n) * 2 powi 0"
    by simp
  then show ?thesis unfolding is_double_def by blast
qed

lemma round_double_of_nat:
  assumes le: "n \<le> 2 ^ 53"
  shows "round_double (of_nat n) = Finite (of_nat n)"
proof -
  have "(2::nat) ^ 53 + 2 ^ 970 < 2 ^ 970 + 2 ^ 970"
    by simp
  also have "\<dots> \<le> 2 ^ 1024" by simp
  finally have "\<not> 2 ^ 1024 - 2 ^ 970 \<le> n" using le by linarith
  then obtain m where m: "round_double (of_nat n) = Finite m"
    using round_double_of_nat_cases[of n] round_double_of_nat_overflow[of n] by blast
  have "\<bar>m - of_nat n\<bar> \<le> \<bar>of_nat n - of_nat n\<bar>"
    using round_double_of_nat_nearest(2)[OF m is_double_of_nat[OF le]] .
  then have "m = of_nat n" by simp
  then show ?thesis using m by simp
qed

subsection \<open>The first two segments\<close>

text \<open>The first segment is what precedes the first \<^verbatim>\<open>x\<close>; there is a second segment if
  there is an \<^verbatim>\<open>x\<close>, and it is what lies between the first \<^verbatim>\<open>x\<close> and the next.\<close>

lemma split_sep: "c \<notin> set w \<Longrightarrow> split c (w @ c # rest) = w # split c rest"
  by (simp add: split_def split_from_sep)

lemma split_decomposition:
  "split c v =
     (if c \<in> set v
      then takeWhile (\<lambda>a. a \<noteq> c) v # split c (tl (dropWhile (\<lambda>a. a \<noteq> c) v))
      else [v])"
proof (cases "c \<in> set v")
  case False
  then show ?thesis by (simp add: split_no_sep)
next
  case True
  define w where "w = takeWhile (\<lambda>a. a \<noteq> c) v"
  define d where "d = dropWhile (\<lambda>a. a \<noteq> c) v"
  have v: "v = w @ d" unfolding w_def d_def by simp
  have w: "c \<notin> set w" unfolding w_def by (auto dest: set_takeWhileD)
  have "d \<noteq> []" unfolding d_def using True by (simp add: dropWhile_eq_Nil_conv)
  moreover have "d \<noteq> [] \<Longrightarrow> hd d = c"
    unfolding d_def using hd_dropWhile[of "\<lambda>a. a \<noteq> c" v] by simp
  ultimately have d: "d = c # tl d" by (cases d) simp_all
  have "split c v = w # split c (tl d)"
    using split_sep[OF w, of "tl d"] v d by simp
  then show ?thesis using True by (simp add: w_def d_def)
qed

lemma split_nonempty: "split c v \<noteq> []"
  by (subst split_decomposition) simp

lemma element_at_0_hd: "xs \<noteq> [] \<Longrightarrow> element_at xs 0 = Some (hd xs)"
  by (cases xs) simp_all

lemma first_segment:
  "element_at (split c v) 0 = Some (takeWhile (\<lambda>a. a \<noteq> c) v)"
proof (cases "c \<in> set v")
  case True
  then show ?thesis by (subst split_decomposition) simp
next
  case False
  then have tw: "takeWhile (\<lambda>a. a \<noteq> c) v = v"
    by (intro takeWhile_eq_all_conv[THEN iffD2]) auto
  show ?thesis unfolding tw split_no_sep[OF False] by simp
qed

lemma hd_split: "hd (split c v) = takeWhile (\<lambda>a. a \<noteq> c) v"
  using first_segment[of c v] element_at_0_hd[OF split_nonempty, of c v] by simp

lemma second_segment:
  "element_at (split c v) 1 =
     (if c \<in> set v
      then Some (takeWhile (\<lambda>a. a \<noteq> c) (tl (dropWhile (\<lambda>a. a \<noteq> c) v)))
      else None)"
proof (cases "c \<in> set v")
  case False
  then show ?thesis by (simp add: split_no_sep)
next
  case True
  have "element_at (split c v) 1 = element_at (split c (tl (dropWhile (\<lambda>a. a \<noteq> c) v))) 0"
    using True by (subst split_decomposition) simp
  then show ?thesis using True by (simp add: first_segment)
qed

subsection \<open>The viewport of the configuration\<close>

text \<open>The decimal rendering of a natural number is a run of decimal digits that writes
  the number, and it has no \<^verbatim>\<open>x\<close> in it.\<close>

lemma decimal_digit_char: "d < 10 \<Longrightarrow> decimal_digit (digit_char d)"
  by (simp add: decimal_digit_def digit_char_def)

lemma written_number_snoc: "written_number (ds @ [c]) = 10 * written_number ds + (c - 0x30)"
  by (simp add: written_number_def)

lemma decimal_digits_snoc:
  "decimal_digits ds \<Longrightarrow> decimal_digit c \<Longrightarrow> decimal_digits (ds @ [c])"
  by (simp add: decimal_digits_def digits_def)

lemma number_toString_digits:
  "decimal_digits (number_toString n) \<and> written_number (number_toString n) = n"
proof (induction n rule: number_toString.induct)
  case (1 n)
  show ?case
  proof (cases "n < 10")
    case True
    then have "number_toString n = [digit_char n]"
      by (simp add: number_toString.simps)
    then show ?thesis
      using decimal_digit_char[OF True]
      by (simp add: decimal_digits_def digits_def written_number_def digit_char_def)
  next
    case False
    have m: "n mod 10 < 10" by simp
    have eq: "number_toString n = number_toString (n div 10) @ [digit_char (n mod 10)]"
      using False by (subst number_toString.simps) simp
    show ?thesis
      using 1[OF False] decimal_digit_char[OF m]
      by (simp add: eq decimal_digits_snoc written_number_snoc digit_char_def)
  qed
qed

lemma digit_not_x:
  assumes "decimal_digits ds"
  shows "unit_of CHR ''x'' \<notin> set ds"
proof
  assume "unit_of CHR ''x'' \<in> set ds"
  then have "decimal_digit (unit_of CHR ''x'')"
    using assms by (simp add: decimal_digits_def digits_def)
  then show False
    using decimal_digit_facts(7) by blast
qed

lemma ascii_x: "ascii ''x'' = [unit_of CHR ''x'']"
  by (simp add: ascii_def)

lemma split_width_height:
  "unit_of CHR ''x'' \<notin> set W \<Longrightarrow> unit_of CHR ''x'' \<notin> set H \<Longrightarrow>
     split (unit_of CHR ''x'') (W @ ascii ''x'' @ H) = [W, H]"
  unfolding ascii_x by (rule split_two)

subsection \<open>Numbers written in decimal digits\<close>

lemma string_to_number_exact:
  "decimal_digits ds \<Longrightarrow> written_number ds \<le> 2 ^ 53 \<Longrightarrow>
   string_to_number ds = Finite (of_nat (written_number ds))"
  by (simp add: string_to_number_decimal_digits round_double_of_nat)

lemma string_to_number_overflow:
  "decimal_digits ds \<Longrightarrow>
   string_to_number ds = PosInfinity \<longleftrightarrow> 2 ^ 1024 - 2 ^ 970 \<le> written_number ds"
  by (simp only: string_to_number_decimal_digits round_double_of_nat_overflow)

lemma string_to_number_nearest:
  assumes d: "decimal_digits ds" and small: "written_number ds < 2 ^ 1024 - 2 ^ 970"
  shows "\<exists>m. string_to_number ds = Finite m \<and> is_double m \<and>
           (\<forall>d. is_double d \<longrightarrow>
              \<bar>m - of_nat (written_number ds)\<bar> \<le> \<bar>d - of_nat (written_number ds)\<bar>)"
proof -
  have "round_double (of_nat (written_number ds)) \<noteq> PosInfinity"
    using small by (simp only: round_double_of_nat_overflow)
  then obtain m where m: "round_double (of_nat (written_number ds)) = Finite m"
    using round_double_of_nat_cases[of "written_number ds"] by blast
  show ?thesis
    using round_double_of_nat_nearest[OF m] m string_to_number_decimal_digits[OF d] by auto
qed

text \<open>With no viewport supplied the dimensions are those of the configuration.\<close>

lemma default_dimensions:
  assumes "\<not> truthy_string (viewport opts)"
    and "DefaultViewport.width (BrowserConfig.defaultViewport (browser c)) \<le> 2 ^ 53"
    and "DefaultViewport.height (BrowserConfig.defaultViewport (browser c)) \<le> 2 ^ 53"
  shows "Options.width (fst (makeOptions (Inr path) opts c)) =
           Some (Finite (of_nat (DefaultViewport.width (BrowserConfig.defaultViewport (browser c)))))"
    and "Options.height (fst (makeOptions (Inr path) opts c)) =
           Some (Finite (of_nat (DefaultViewport.height (BrowserConfig.defaultViewport (browser c)))))"
proof -
  let ?w = "DefaultViewport.width (BrowserConfig.defaultViewport (browser c))"
  let ?h = "DefaultViewport.height (BrowserConfig.defaultViewport (browser c))"
  have v: "resolved_viewport c opts = number_toString ?w @ ascii ''x'' @ number_toString ?h"
    using assms(1) by (simp add: resolved_viewport_def viewport_of_config_def)
  have s: "split (unit_of CHR ''x'') (resolved_viewport c opts) =
      [number_toString ?w, number_toString ?h]"
    unfolding v using number_toString_digits[of ?w] number_toString_digits[of ?h]
    by (intro split_width_height digit_not_x) simp_all
  show "Options.width (fst (makeOptions (Inr path) opts c)) = Some (Finite (of_nat ?w))"
    using string_to_number_exact[of "number_toString ?w"] number_toString_digits[of ?w] assms(2)
    by (simp add: makeOptions_Inr s)
  show "Options.height (fst (makeOptions (Inr path) opts c)) = Some (Finite (of_nat ?h))"
    using string_to_number_exact[of "number_toString ?h"] number_toString_digits[of ?h] assms(3)
    by (simp add: makeOptions_Inr s)
qed

subsection \<open>White space around a segment\<close>

text \<open>The conversion ignores white space at both ends.\<close>

lemma trim_padding:
  assumes w1: "\<forall>c\<in>set w1. white_space c" and w2: "\<forall>c\<in>set w2. white_space c"
  shows "trim (w1 @ s @ w2) = trim s"
proof -
  have l: "dropWhile isStrWhiteSpaceChar (w1 @ s @ w2) = dropWhile isStrWhiteSpaceChar (s @ w2)"
    using w1 by (intro dropWhile_append2) (simp add: white_space_iff)
  show ?thesis
  proof (cases "\<forall>c\<in>set s. white_space c")
    case True
    then have "\<forall>c\<in>set (s @ w2). white_space c" using w2 by auto
    then have "trim (s @ w2) = []" by (rule trim_white)
    moreover have "trim (w1 @ s @ w2) = trim (s @ w2)" unfolding trim_def l ..
    ultimately show ?thesis using trim_white[OF True] by simp
  next
    case False
    then obtain x where x: "x \<in> set s" "\<not> isStrWhiteSpaceChar x"
      by (auto simp: white_space_iff)
    have m: "dropWhile isStrWhiteSpaceChar (s @ w2) = dropWhile isStrWhiteSpaceChar s @ w2"
      using x by (rule dropWhile_append1)
    have r: "dropWhile isStrWhiteSpaceChar (rev w2 @ rev (dropWhile isStrWhiteSpaceChar s)) =
        dropWhile isStrWhiteSpaceChar (rev (dropWhile isStrWhiteSpaceChar s))"
      using w2 by (intro dropWhile_append2) (simp add: white_space_iff)
    show ?thesis unfolding trim_def l m rev_append r ..
  qed
qed

lemma string_to_number_padding:
  assumes "\<forall>c\<in>set w1. white_space c" and "\<forall>c\<in>set w2. white_space c"
  shows "string_to_number (w1 @ s @ w2) = string_to_number s"
  unfolding string_to_number_def trim_padding[OF assms] ..

subsection \<open>Width and height\<close>

text \<open>Concrete values, among them a number just above \<open>2^53\<close>, which is rounded.\<close>

lemma floorlog_above_2_53: "floorlog 2 9007199254740993 = 54"
proof -
  have "floorlog 2 9007199254740993 \<le> 54"
    by (simp add: floorlog_le_iff)
  moreover have "54 \<le> floorlog 2 9007199254740993"
    by (rule floorlog_geI) simp_all
  ultimately show ?thesis by simp
qed

lemma round_double_above_2_53: "round_double 9007199254740993 = Finite 9007199254740992"
proof -
  have fl: "floor_log2 9007199254740993 = 53"
    by (simp add: floor_log2_def floorlog_above_2_53)
  have "\<lfloor>(9007199254740993::rat) / 2\<rfloor> = 4503599627370496"
    using floor_divide_of_int_eq[where ?'a = rat, of 9007199254740993 2] by simp
  then have rhe: "round_half_even (9007199254740993 / 2) = 4503599627370496"
    by (simp add: round_half_even_def Let_def)
  show ?thesis
    by (simp add: round_double_def fl Let_def pow2_def rhe)
qed

lemma resolved_viewport_supplied:
  "v \<noteq> [] \<Longrightarrow> resolved_viewport c (no_options\<lparr>viewport := Some v\<rparr>) = v"
  by (simp add: resolved_viewport_def)

lemma written_examples:
  "decimal_digits (ascii ''1280'') \<and> written_number (ascii ''1280'') = 1280"
  "decimal_digits (ascii ''800'') \<and> written_number (ascii ''800'') = 800"
  "decimal_digits (ascii ''1'') \<and> written_number (ascii ''1'') = 1"
  "decimal_digits (ascii ''9007199254740993'') \<and>
   written_number (ascii ''9007199254740993'') = 9007199254740993"
  by (simp_all add: decimal_digits_def digits_def decimal_digit_def written_number_def
        ascii_def unit_of_def)

lemma is_double_2_53: "is_double 9007199254740992"
proof -
  have "\<bar>2 ^ 52 :: int\<bar> < 2 ^ 53 \<and> - 1074 \<le> (1::int) \<and> (1::int) \<le> 971 \<and>
      (9007199254740992 :: rat) = of_int (2 ^ 52) * 2 powi 1"
    by simp
  then show ?thesis unfolding is_double_def by blast
qed

text \<open>
  Claim C7, amended. Let the viewport be the caller's, or that of the configuration
  with width and height at most \<open>2^53\<close> (where the digits that JavaScript writes for a
  number are those of the model). Resolution with a browser found raises no error and
  leaves the resolved viewport string in \<^verbatim>\<open>viewport\<close>: the caller's string if it is
  non-empty, otherwise \<^verbatim>\<open><width>x<height>\<close> in decimal digits from the configuration. It
  stores as \<^verbatim>\<open>width\<close> the numeric conversion (unary plus) of the first segment, which is
  the string up to the first \<^verbatim>\<open>x\<close>, and as \<^verbatim>\<open>height\<close> that of the second segment, which
  is what lies between the first \<^verbatim>\<open>x\<close> and the next; without an \<^verbatim>\<open>x\<close> there is no second
  segment and the height is \<open>NaN\<close>. With the viewport of the configuration the two
  fields are the configured numbers. Of the conversion of a segment \<open>s\<close>:

    \<^item> it is \<open>NaN\<close> exactly when \<open>s\<close> is not a \<^verbatim>\<open>StringNumericLiteral\<close>, that is white
      space around nothing or around one numeric literal;
    \<^item> it is \<open>0\<close> when \<open>s\<close> is empty or white space only;
    \<^item> it is that of \<open>s\<close> with white space added or removed at either end;
    \<^item> when \<open>s\<close> is a non-empty run of decimal digits, it is the written number if that
      is at most \<open>2^53\<close>, it is \<open>Infinity\<close> exactly when the written number is at least
      \<open>2^1024 - 2^970\<close>, and below that it is a double such that no double is nearer to
      the written number.
\<close>

theorem viewport_dimensions:
  assumes "truthy_string (viewport opts) \<or>
     DefaultViewport.width (BrowserConfig.defaultViewport (browser c)) \<le> 2 ^ 53 \<and>
     DefaultViewport.height (BrowserConfig.defaultViewport (browser c)) \<le> 2 ^ 53"
  shows
  "let v = resolved_viewport c opts;
       x = unit_of CHR ''x'';
       segments = split x v;
       r = fst (makeOptions (Inr path) opts c);
       w = DefaultViewport.width (BrowserConfig.defaultViewport (browser c));
       h = DefaultViewport.height (BrowserConfig.defaultViewport (browser c))
   in snd (makeOptions (Inr path) opts c) = None \<and>
      viewport r = Some v \<and>
      (truthy_string (viewport opts) \<longrightarrow> viewport opts = Some v) \<and>
      Options.width r = Some (unary_plus (element_at segments 0)) \<and>
      Options.height r = Some (unary_plus (element_at segments 1)) \<and>
      element_at segments 0 = Some (takeWhile (\<lambda>a. a \<noteq> x) v) \<and>
      element_at segments 1 =
        (if x \<in> set v then Some (takeWhile (\<lambda>a. a \<noteq> x) (tl (dropWhile (\<lambda>a. a \<noteq> x) v)))
         else None) \<and>
      unary_plus None = NaN \<and>
      (\<not> truthy_string (viewport opts) \<longrightarrow>
         v = number_toString w @ ascii ''x'' @ number_toString h \<and>
         decimal_digits (number_toString w) \<and> written_number (number_toString w) = w \<and>
         decimal_digits (number_toString h) \<and> written_number (number_toString h) = h \<and>
         Options.width r = Some (Finite (of_nat w)) \<and>
         Options.height r = Some (Finite (of_nat h))) \<and>
      (\<forall>s. (unary_plus (Some s) = NaN \<longleftrightarrow> \<not> string_numeric_literal s) \<and>
           ((\<forall>ch\<in>set s. white_space ch) \<longrightarrow> unary_plus (Some s) = Finite 0) \<and>
           (decimal_digits s \<longrightarrow>
              (written_number s \<le> 2 ^ 53 \<longrightarrow>
                 unary_plus (Some s) = Finite (of_nat (written_number s))) \<and>
              (unary_plus (Some s) = PosInfinity \<longleftrightarrow>
                 2 ^ 1024 - 2 ^ 970 \<le> written_number s) \<and>
              (written_number s < 2 ^ 1024 - 2 ^ 970 \<longrightarrow>
                 (\<exists>m. unary_plus (Some s) = Finite m \<and> is_double m \<and>
                      (\<forall>d. is_double d \<longrightarrow>
                         \<bar>m - of_nat (written_number s)\<bar> \<le>
                         \<bar>d - of_nat (written_number s)\<bar>)))) \<and>
           (\<forall>w1 w2. (\<forall>ch\<in>set w1. white_space ch) \<and> (\<forall>ch\<in>set w2. white_space ch) \<longrightarrow>
              unary_plus (Some (w1 @ s @ w2)) = unary_plus (Some s)))"
proof -
  let ?w = "DefaultViewport.width (BrowserConfig.defaultViewport (browser c))"
  let ?h = "DefaultViewport.height (BrowserConfig.defaultViewport (browser c))"
  let ?v = "resolved_viewport c opts"
  let ?x = "unit_of CHR ''x''"
  let ?r = "fst (makeOptions (Inr path) opts c)"
  have c1: "snd (makeOptions (Inr path) opts c) = None"
    by (simp add: makeOptions_Inr)
  have c2: "viewport ?r = Some ?v"
    by (simp add: makeOptions_Inr viewport_defaults)
  have c3: "truthy_string (viewport opts) \<longrightarrow> viewport opts = Some ?v"
    by (cases "viewport opts") (simp_all add: resolved_viewport_def)
  have c4: "Options.width ?r = Some (unary_plus (element_at (split ?x ?v) 0))"
    by (simp add: makeOptions_Inr)
  have c5: "Options.height ?r = Some (unary_plus (element_at (split ?x ?v) 1))"
    by (simp add: makeOptions_Inr)
  have c6: "element_at (split ?x ?v) 0 = Some (takeWhile (\<lambda>a. a \<noteq> ?x) ?v)"
    by (rule first_segment)
  have c7: "element_at (split ?x ?v) 1 =
      (if ?x \<in> set ?v then Some (takeWhile (\<lambda>a. a \<noteq> ?x) (tl (dropWhile (\<lambda>a. a \<noteq> ?x) ?v)))
       else None)"
    by (rule second_segment)
  have c8: "unary_plus None = NaN" by simp
  have c9: "\<not> truthy_string (viewport opts) \<longrightarrow>
         ?v = number_toString ?w @ ascii ''x'' @ number_toString ?h \<and>
         decimal_digits (number_toString ?w) \<and> written_number (number_toString ?w) = ?w \<and>
         decimal_digits (number_toString ?h) \<and> written_number (number_toString ?h) = ?h \<and>
         Options.width ?r = Some (Finite (of_nat ?w)) \<and>
         Options.height ?r = Some (Finite (of_nat ?h))"
  proof
    assume f: "\<not> truthy_string (viewport opts)"
    then have b: "?w \<le> 2 ^ 53" "?h \<le> 2 ^ 53" using assms by simp_all
    have "?v = number_toString ?w @ ascii ''x'' @ number_toString ?h"
      using f by (simp add: resolved_viewport_def viewport_of_config_def)
    then show "?v = number_toString ?w @ ascii ''x'' @ number_toString ?h \<and>
         decimal_digits (number_toString ?w) \<and> written_number (number_toString ?w) = ?w \<and>
         decimal_digits (number_toString ?h) \<and> written_number (number_toString ?h) = ?h \<and>
         Options.width ?r = Some (Finite (of_nat ?w)) \<and>
         Options.height ?r = Some (Finite (of_nat ?h))"
      using number_toString_digits[of ?w] number_toString_digits[of ?h]
        default_dimensions[OF f b, of path] by blast
  qed
  have c10: "\<forall>s. (unary_plus (Some s) = NaN \<longleftrightarrow> \<not> string_numeric_literal s) \<and>
           ((\<forall>ch\<in>set s. white_space ch) \<longrightarrow> unary_plus (Some s) = Finite 0) \<and>
           (decimal_digits s \<longrightarrow>
              (written_number s \<le> 2 ^ 53 \<longrightarrow>
                 unary_plus (Some s) = Finite (of_nat (written_number s))) \<and>
              (unary_plus (Some s) = PosInfinity \<longleftrightarrow>
                 2 ^ 1024 - 2 ^ 970 \<le> written_number s) \<and>
              (written_number s < 2 ^ 1024 - 2 ^ 970 \<longrightarrow>
                 (\<exists>m. unary_plus (Some s) = Finite m \<and> is_double m \<and>
                      (\<forall>d. is_double d \<longrightarrow>
                         \<bar>m - of_nat (written_number s)\<bar> \<le>
                         \<bar>d - of_nat (written_number s)\<bar>)))) \<and>
           (\<forall>w1 w2. (\<forall>ch\<in>set w1. white_space ch) \<and> (\<forall>ch\<in>set w2. white_space ch) \<longrightarrow>
              unary_plus (Some (w1 @ s @ w2)) = unary_plus (Some s))"
  proof (intro allI conjI impI)
    fix s
    show "unary_plus (Some s) = NaN \<longleftrightarrow> \<not> string_numeric_literal s"
      by (simp add: string_to_number_NaN_iff)
    show "unary_plus (Some s) = Finite 0" if "\<forall>ch\<in>set s. white_space ch"
      using that by (simp add: string_to_number_white)
    show "unary_plus (Some s) = Finite (of_nat (written_number s))"
      if "decimal_digits s" "written_number s \<le> 2 ^ 53"
      using that by (simp add: string_to_number_exact)
    show "unary_plus (Some s) = PosInfinity \<longleftrightarrow> 2 ^ 1024 - 2 ^ 970 \<le> written_number s"
      if "decimal_digits s"
      using string_to_number_overflow[OF that] by simp
    show "\<exists>m. unary_plus (Some s) = Finite m \<and> is_double m \<and>
            (\<forall>d. is_double d \<longrightarrow>
               \<bar>m - of_nat (written_number s)\<bar> \<le> \<bar>d - of_nat (written_number s)\<bar>)"
      if "decimal_digits s" "written_number s < 2 ^ 1024 - 2 ^ 970"
      using string_to_number_nearest[OF that] by simp
    show "unary_plus (Some (w1 @ s @ w2)) = unary_plus (Some s)"
      if "(\<forall>ch\<in>set w1. white_space ch) \<and> (\<forall>ch\<in>set w2. white_space ch)" for w1 w2
      using that by (simp add: string_to_number_padding)
  qed
  show ?thesis
    unfolding Let_def
    by (rule conjI[OF c1], rule conjI[OF c2], rule conjI[OF c3], rule conjI[OF c4],
        rule conjI[OF c5], rule conjI[OF c6], rule conjI[OF c7], rule conjI[OF c8],
        rule conjI[OF c9], rule c10)
qed

lemma not_numbers:
  "string_to_number (ascii ''1.2.3'') = NaN"
  "string_to_number (ascii ''0b2'') = NaN"
  "string_to_number (ascii ''1e'') = NaN"
  "string_to_number (ascii ''12px'') = NaN"
  by (simp_all add: string_to_number_def trim_def isStrWhiteSpaceChar_def ascii_def unit_of_def
        unsigned_decimal_literal_def is_digit_of_def digit_value_def exponent_part_def
        signed_integer_def radix_of_prefix_def Let_def)

lemma written_12: "decimal_digits (ascii ''12'') \<and> written_number (ascii ''12'') = 12"
  by (simp add: decimal_digits_def digits_def decimal_digit_def written_number_def
        ascii_def unit_of_def)

lemma ascii_append: "ascii (s @ t) = ascii s @ ascii t"
  by (simp add: ascii_def)

lemma ascii_nonempty: "s \<noteq> [] \<Longrightarrow> ascii s \<noteq> []"
  by (simp add: ascii_def)

lemma number_toString_examples:
  "number_toString 1280 = ascii ''1280''" "number_toString 800 = ascii ''800''"
  by (simp_all add: number_toString.simps digit_char_def ascii_def unit_of_def)

theorem viewport_dimensions_witness:
  "Options.width (fst (makeOptions (Inr ''/usr/bin/chromium'')
      (no_options\<lparr>viewport := Some (ascii ''1280x800'')\<rparr>) defaultConfig)) = Some (Finite 1280) \<and>
   Options.height (fst (makeOptions (Inr ''/usr/bin/chromium'')
      (no_options\<lparr>viewport := Some (ascii ''1280x800'')\<rparr>) defaultConfig)) = Some (Finite 800) \<and>
   viewport (fst (makeOptions (Inr ''/usr/bin/chromium'') no_options defaultConfig)) = Some (ascii ''1280x800'') \<and>
   Options.width (fst (makeOptions (Inr ''/usr/bin/chromium'') no_options defaultConfig)) = Some (Finite 1280) \<and>
   Options.height (fst (makeOptions (Inr ''/usr/bin/chromium'') no_options defaultConfig)) = Some (Finite 800) \<and>
   Options.height (fst (makeOptions (Inr ''/usr/bin/chromium'')
      (no_options\<lparr>viewport := Some (ascii ''1280'')\<rparr>) defaultConfig)) = Some NaN \<and>
   unary_plus (Some [0x3000, 0x20]) = Finite 0 \<and>
   \<not> string_numeric_literal (ascii ''1.2.3'') \<and>
   \<not> string_numeric_literal (ascii ''0b2'') \<and>
   \<not> string_numeric_literal (ascii ''1e'') \<and>
   unary_plus (Some (ascii '' 12'')) = Finite 12 \<and>
   string_numeric_literal (ascii '' 12'') \<and>
   unary_plus (Some (ascii ''800'')) \<noteq> PosInfinity \<and>
   unary_plus (Some (ascii ''9007199254740993'')) \<noteq> Finite 9007199254740996"
proof -
  have ha: "truthy_string (viewport (no_options\<lparr>viewport := Some (ascii ''1280x800'')\<rparr>)) \<or>
     DefaultViewport.width (BrowserConfig.defaultViewport (browser defaultConfig)) \<le> 2 ^ 53 \<and>
     DefaultViewport.height (BrowserConfig.defaultViewport (browser defaultConfig)) \<le> 2 ^ 53"
    by (simp add: ascii_def)
  have hb: "truthy_string (viewport no_options) \<or>
     DefaultViewport.width (BrowserConfig.defaultViewport (browser defaultConfig)) \<le> 2 ^ 53 \<and>
     DefaultViewport.height (BrowserConfig.defaultViewport (browser defaultConfig)) \<le> 2 ^ 53"
    by (simp add: defaultConfig_def)
  have hc: "truthy_string (viewport (no_options\<lparr>viewport := Some (ascii ''1280'')\<rparr>)) \<or>
     DefaultViewport.width (BrowserConfig.defaultViewport (browser defaultConfig)) \<le> 2 ^ 53 \<and>
     DefaultViewport.height (BrowserConfig.defaultViewport (browser defaultConfig)) \<le> 2 ^ 53"
    by (simp add: ascii_def)
  note a = viewport_dimensions[OF ha, of "''/usr/bin/chromium''", unfolded Let_def]
  note b = viewport_dimensions[OF hb, of "''/usr/bin/chromium''", unfolded Let_def]
  note c = viewport_dimensions[OF hc, of "''/usr/bin/chromium''", unfolded Let_def]
  note a4 = a[THEN conjunct2, THEN conjunct2, THEN conjunct2, THEN conjunct1]
  note a5 = a[THEN conjunct2, THEN conjunct2, THEN conjunct2, THEN conjunct2, THEN conjunct1]
  note a6 = a[THEN conjunct2, THEN conjunct2, THEN conjunct2, THEN conjunct2, THEN conjunct2,
      THEN conjunct1]
  note a7 = a[THEN conjunct2, THEN conjunct2, THEN conjunct2, THEN conjunct2, THEN conjunct2,
      THEN conjunct2, THEN conjunct1]
  note conversion = a[THEN conjunct2, THEN conjunct2, THEN conjunct2, THEN conjunct2, 
      THEN conjunct2, THEN conjunct2, THEN conjunct2, THEN conjunct2, THEN conjunct2]
  note b2 = b[THEN conjunct2, THEN conjunct1]
  note b9 = b[THEN conjunct2, THEN conjunct2, THEN conjunct2, THEN conjunct2, THEN conjunct2,
      THEN conjunct2, THEN conjunct2, THEN conjunct2, THEN conjunct1]
  note c5 = c[THEN conjunct2, THEN conjunct2, THEN conjunct2, THEN conjunct2, THEN conjunct1]
  note c7 = c[THEN conjunct2, THEN conjunct2, THEN conjunct2, THEN conjunct2, THEN conjunct2,
      THEN conjunct2, THEN conjunct1]
  note c8 = c[THEN conjunct2, THEN conjunct2, THEN conjunct2, THEN conjunct2, THEN conjunct2,
      THEN conjunct2, THEN conjunct2, THEN conjunct1]
  have va: "resolved_viewport defaultConfig (no_options\<lparr>viewport := Some (ascii ''1280x800'')\<rparr>) =
      ascii ''1280x800''"
    by (simp add: resolved_viewport_supplied ascii_nonempty)
  have vc: "resolved_viewport defaultConfig (no_options\<lparr>viewport := Some (ascii ''1280'')\<rparr>) =
      ascii ''1280''"
    by (simp add: resolved_viewport_supplied ascii_nonempty)
  have seg_a: "takeWhile (\<lambda>a. a \<noteq> unit_of CHR ''x'') (ascii ''1280x800'') = ascii ''1280''"
    "unit_of CHR ''x'' \<in> set (ascii ''1280x800'')"
    "takeWhile (\<lambda>a. a \<noteq> unit_of CHR ''x'')
       (tl (dropWhile (\<lambda>a. a \<noteq> unit_of CHR ''x'') (ascii ''1280x800''))) = ascii ''800''"
    by (simp_all add: ascii_def unit_of_def)
  have seg_c: "unit_of CHR ''x'' \<notin> set (ascii ''1280'')"
    by (simp add: ascii_def unit_of_def)
  note n1280 = conversion[THEN spec[of _ "ascii ''1280''"], THEN conjunct2, THEN conjunct2,
      THEN conjunct1, THEN mp, OF written_examples(1)[THEN conjunct1], THEN conjunct1]
  note n800 = conversion[THEN spec[of _ "ascii ''800''"], THEN conjunct2, THEN conjunct2,
      THEN conjunct1, THEN mp, OF written_examples(2)[THEN conjunct1], THEN conjunct1]
  have u1280: "unary_plus (Some (ascii ''1280'')) = Finite 1280"
    using n1280 by (simp add: written_examples)
  have u800: "unary_plus (Some (ascii ''800'')) = Finite 800"
    using n800 by (simp add: written_examples)
  have 1: "Options.width (fst (makeOptions (Inr ''/usr/bin/chromium'')
      (no_options\<lparr>viewport := Some (ascii ''1280x800'')\<rparr>) defaultConfig)) = Some (Finite 1280)"
    using a4 a6 u1280 by (simp only: va seg_a)
  have 2: "Options.height (fst (makeOptions (Inr ''/usr/bin/chromium'')
      (no_options\<lparr>viewport := Some (ascii ''1280x800'')\<rparr>) defaultConfig)) = Some (Finite 800)"
    using a5 a7 u800 by (simp only: va seg_a if_True)
  have d: "\<not> truthy_string (viewport no_options)" by (simp add: no_options_def)
  note dflt = b9[THEN mp, OF d]
  have 3: "viewport (fst (makeOptions (Inr ''/usr/bin/chromium'') no_options defaultConfig)) = Some (ascii ''1280x800'')"
    using b2 dflt
    by (simp add: defaultConfig_def number_toString_examples ascii_append[symmetric])
  have 4: "Options.width (fst (makeOptions (Inr ''/usr/bin/chromium'') no_options defaultConfig)) = Some (Finite 1280)"
    using dflt by (simp add: defaultConfig_def)
  have 5: "Options.height (fst (makeOptions (Inr ''/usr/bin/chromium'') no_options defaultConfig)) = Some (Finite 800)"
    using dflt by (simp add: defaultConfig_def)
  have 6: "Options.height (fst (makeOptions (Inr ''/usr/bin/chromium'')
      (no_options\<lparr>viewport := Some (ascii ''1280'')\<rparr>) defaultConfig)) = Some NaN"
    using c5 c7 c8 by (simp only: vc seg_c if_False)
  have ws: "\<forall>ch\<in>set [0x3000, 0x20]. white_space ch"
    by (simp add: white_space_def)
  have 7: "unary_plus (Some [0x3000, 0x20]) = Finite 0"
    using conversion[THEN spec[of _ "[0x3000, 0x20]"], THEN conjunct2, THEN conjunct1, THEN mp,
      OF ws] .
  have 8: "\<not> string_numeric_literal (ascii ''1.2.3'')"
    using conversion[THEN spec[of _ "ascii ''1.2.3''"], THEN conjunct1] not_numbers(1) by simp
  have 9: "\<not> string_numeric_literal (ascii ''0b2'')"
    using conversion[THEN spec[of _ "ascii ''0b2''"], THEN conjunct1] not_numbers(2) by simp
  have 10: "\<not> string_numeric_literal (ascii ''1e'')"
    using conversion[THEN spec[of _ "ascii ''1e''"], THEN conjunct1] not_numbers(3) by simp
  note n12 = conversion[THEN spec[of _ "ascii ''12''"], THEN conjunct2, THEN conjunct2,
      THEN conjunct1, THEN mp, OF written_12[THEN conjunct1], THEN conjunct1]
  have u12: "unary_plus (Some (ascii ''12'')) = Finite 12"
    using n12 by (simp add: written_12)
  have sp: "(\<forall>ch\<in>set (ascii '' ''). white_space ch) \<and> (\<forall>ch\<in>set []. white_space ch)"
    by (simp add: white_space_def ascii_def unit_of_def)
  note padded = conversion[THEN spec[of _ "ascii ''12''"], THEN conjunct2, THEN conjunct2,
      THEN conjunct2, THEN spec[of _ "ascii '' ''"], THEN spec[of _ "[]"], THEN mp, OF sp]
  have 14: "unary_plus (Some (ascii '' 12'')) = Finite 12"
    using padded u12 by (simp add: ascii_def)
  have 11: "string_numeric_literal (ascii '' 12'')"
    using conversion[THEN spec[of _ "ascii '' 12''"], THEN conjunct1] 14 by simp
  note inf800 = conversion[THEN spec[of _ "ascii ''800''"], THEN conjunct2, THEN conjunct2,
      THEN conjunct1, THEN mp, OF written_examples(2)[THEN conjunct1], THEN conjunct2, THEN conjunct1]
  have 12: "unary_plus (Some (ascii ''800'')) \<noteq> PosInfinity"
    using inf800 by (simp add: written_examples)
  note near = conversion[THEN spec[of _ "ascii ''9007199254740993''"], THEN conjunct2,
      THEN conjunct2, THEN conjunct1, THEN mp, OF written_examples(4)[THEN conjunct1], THEN conjunct2,
      THEN conjunct2]
  have lt: "written_number (ascii ''9007199254740993'') < 2 ^ 1024 - 2 ^ 970"
    by (simp add: written_examples)
  from near[THEN mp, OF lt] obtain m
    where m: "unary_plus (Some (ascii ''9007199254740993'')) = Finite m"
      and nearest: "\<forall>d. is_double d \<longrightarrow>
        \<bar>m - of_nat (written_number (ascii ''9007199254740993''))\<bar> \<le>
        \<bar>d - of_nat (written_number (ascii ''9007199254740993''))\<bar>"
    by blast
  have "\<bar>m - 9007199254740993\<bar> \<le> \<bar>9007199254740992 - 9007199254740993\<bar>"
    using nearest[THEN spec, THEN mp, OF is_double_2_53] by (simp add: written_examples)
  then have "m \<noteq> 9007199254740996" by auto
  then have 13: "unary_plus (Some (ascii ''9007199254740993'')) \<noteq> Finite 9007199254740996"
    using m by simp
  show ?thesis
    by (rule conjI[OF 1], rule conjI[OF 2], rule conjI[OF 3], rule conjI[OF 4],
        rule conjI[OF 5], rule conjI[OF 6], rule conjI[OF 7], rule conjI[OF 8],
        rule conjI[OF 9], rule conjI[OF 10], rule conjI[OF 14], rule conjI[OF 11],
        rule conjI[OF 12], rule 13)
qed

text \<open>
  Claim c7 as stated fails twice. The viewport \<^verbatim>\<open>1280x\<close> has an empty, hence
  non-numeric, second segment, and the height is \<open>0\<close>, not \<open>NaN\<close>. The viewport
  \<^verbatim>\<open>9007199254740993x1\<close> is well-formed, and the width is not the written number but
  the nearest double, \<open>9007199254740992\<close>.
\<close>

theorem viewport_dimensions_counterexample:
  "element_at (split (unit_of CHR ''x'') (ascii ''1280x'')) 1 = Some [] \<and>
   Options.height (fst (makeOptions (Inr ''/usr/bin/chromium'')
      (no_options\<lparr>viewport := Some (ascii ''1280x'')\<rparr>) defaultConfig)) = Some (Finite 0) \<and>
   Options.height (fst (makeOptions (Inr ''/usr/bin/chromium'')
      (no_options\<lparr>viewport := Some (ascii ''1280x'')\<rparr>) defaultConfig)) \<noteq> Some NaN \<and>
   Options.width (fst (makeOptions (Inr ''/usr/bin/chromium'')
      (no_options\<lparr>viewport := Some (ascii ''9007199254740993x1'')\<rparr>) defaultConfig))
     = Some (Finite 9007199254740992) \<and>
   Options.width (fst (makeOptions (Inr ''/usr/bin/chromium'')
      (no_options\<lparr>viewport := Some (ascii ''9007199254740993x1'')\<rparr>) defaultConfig))
     \<noteq> Some (Finite 9007199254740993)"
proof -
  have s1: "split (unit_of CHR ''x'') (ascii ''1280x'') = [ascii ''1280'', []]"
    by (simp add: split_def ascii_def unit_of_def)
  have s2: "split (unit_of CHR ''x'') (ascii ''9007199254740993x1'') =
      [ascii ''9007199254740993'', ascii ''1'']"
    by (simp add: split_def ascii_def unit_of_def)
  have e: "string_to_number [] = Finite 0"
    by (simp add: string_to_number_white)
  have r: "string_to_number (ascii ''9007199254740993'') = Finite 9007199254740992"
    using string_to_number_decimal_digits[of "ascii ''9007199254740993''"] written_examples(4)
    by (simp add: round_double_above_2_53)
  have h: "Options.height (fst (makeOptions (Inr ''/usr/bin/chromium'')
      (no_options\<lparr>viewport := Some (ascii ''1280x'')\<rparr>) defaultConfig)) = Some (Finite 0)"
    by (simp add: makeOptions_Inr resolved_viewport_supplied ascii_nonempty s1 e)
  have w: "Options.width (fst (makeOptions (Inr ''/usr/bin/chromium'')
      (no_options\<lparr>viewport := Some (ascii ''9007199254740993x1'')\<rparr>) defaultConfig))
     = Some (Finite 9007199254740992)"
    by (simp add: makeOptions_Inr resolved_viewport_supplied ascii_nonempty s2 r)
  show ?thesis
    unfolding h w by (simp add: s1)
qed

end
